theory Spec2Isabelle
  imports Main
begin

section \<open>Errors\<close>

text \<open>
  The exceptions of the compiler core, as values. \<open>InvalidBlockSyntax\<close> is the syntax
  error of \<open>errors.ts\<close> (its source location argument is left out), \<open>CssBlockError\<close> the
  generic one, \<open>TypeError\<close> the JavaScript error thrown by hand in
  \<open>resolveConflictWith\<close>.
\<close>

datatype error = InvalidBlockSyntax string | CssBlockError string | TypeError string

section \<open>Conflict classification (ConflictResolver.ts)\<close>

datatype ConflictType = conflict | noconflict | samevalues

fun updateConflict :: "ConflictType \<Rightarrow> ConflictType \<Rightarrow> ConflictType" where
  "updateConflict conflict t2 = conflict"
| "updateConflict noconflict t2 = t2"
| "updateConflict samevalues t2 = (case t2 of conflict \<Rightarrow> conflict | _ \<Rightarrow> samevalues)"

section \<open>The stylesheet tree (postcss)\<close>

text \<open>
  The postcss syntax tree: a declaration, a rule with its selector and children, an
  at-rule with its name, parameters and children, a comment. A root is the list of its
  children. A container without a body (\<open>nodes\<close> undefined) is one with no children.
\<close>

datatype node =
    Decl (decl_prop: string) (decl_value: string)
  | Rule (selector: string) (nodes: "node list")
  | AtRule (at_name: string) (params: string) (nodes: "node list")
  | Comment string

text \<open>\<open>RegExp.test\<close> for a regular expression that is a literal string: substring search.\<close>

fun startsWith :: "string \<Rightarrow> string \<Rightarrow> bool" where
  "startsWith s p = (take (length p) s = p)"


section \<open>Blocks (Block.ts)\<close>

text \<open>
  The fields of \<open>Block\<close> that the compiler reads: \<open>_identifier\<close> (here
  \<open>block_identifier\<close>), \<open>_name\<close>, \<open>hasHadNameReset\<close>, \<open>_baseName\<close>, \<open>_base\<close> and \<open>root\<close> (here \<open>block_root\<close>),
  the block's own stylesheet. The base pointer makes the type recursive: the chain of bases
  of a block is finite.
\<close>

datatype Block = Block
  (block_identifier: string)
  (name: string)
  (hasHadNameReset: bool)
  (baseName: "string option")
  (base: "Block option")
  (block_root: "node list option")

text \<open>The constructor: \<open>hasHadNameReset = false\<close>, no base, no stylesheet yet.\<close>

definition newBlock :: "string \<Rightarrow> string \<Rightarrow> Block" where
  "newBlock nm ident = Block ident nm False None None None"

text \<open>\<open>set name\<close>: throws once the flag is set, otherwise stores the name and sets the flag.\<close>

fun set_name :: "Block \<Rightarrow> string \<Rightarrow> error + Block" where
  "set_name (Block ident nm reset bn b r) nm' =
     (if reset then Inl (CssBlockError ''Can not set block name more than once.'')
      else Inr (Block ident nm' True bn b r))"

text \<open>
  A sequence of assignments to \<open>name\<close>, each one caught by the caller: the outcome of
  each assignment, and the block after all of them. A throwing assignment leaves the
  block as it was.
\<close>

fun set_names :: "Block \<Rightarrow> string list \<Rightarrow> (error + unit) list \<times> Block" where
  "set_names b [] = ([], b)"
| "set_names b (n # ns) =
     (case set_name b n of
        Inl e \<Rightarrow> (let (rs, b') = set_names b ns in (Inl e # rs, b'))
      | Inr b1 \<Rightarrow> (let (rs, b') = set_names b1 ns in (Inr () # rs, b')))"

text \<open>\<open>setBase(baseName, base)\<close>.\<close>

fun setBase :: "Block \<Rightarrow> string \<Rightarrow> Block \<Rightarrow> Block" where
  "setBase (Block ident nm reset bn b r) baseName' base' =
     Block ident nm reset (Some baseName') (Some base') r"

text \<open>\<open>equal(other)\<close>: blocks are compared by identifier; \<open>undefined\<close> is equal to nothing.\<close>

fun equal :: "Block \<Rightarrow> Block option \<Rightarrow> bool" where
  "equal this None = False"
| "equal this (Some other) = (block_identifier this = block_identifier other)"

text \<open>
  \<open>isAncestor(other)\<close>: the loop starts at \<open>other.base\<close> and follows \<open>base\<close> until it finds
  a block equal to \<open>this\<close> or runs off the chain. \<open>isAncestorFrom\<close> is the loop, over the
  variable \<open>base\<close>.
\<close>

fun isAncestorFrom :: "Block \<Rightarrow> Block option \<Rightarrow> bool" where
  "isAncestorFrom this None = False"
| "isAncestorFrom this (Some (Block ident nm reset bn b r)) =
     (if equal this (Some (Block ident nm reset bn b r)) then True else isAncestorFrom this b)"

fun isAncestor :: "Block \<Rightarrow> Block option \<Rightarrow> bool" where
  "isAncestor this None = False"
| "isAncestor this (Some other) = isAncestorFrom this (base other)"

text \<open>The blocks reached from a block by following \<open>base\<close> one or more times.\<close>

fun ancestors :: "Block \<Rightarrow> Block list" where
  "ancestors (Block ident nm reset bn b r) =
     (case b of None \<Rightarrow> [] | Some a \<Rightarrow> a # ancestors a)"

text \<open>
  A style object of a block (\<open>BlockObject\<close>): the root, a class or a state. \<open>source\<close> is
  what \<open>asSource()\<close> returns, \<open>obj_block\<close> the owning block (the field \<open>block\<close>),
  \<open>obj_base\<close> the object of the base block it overrides (the field \<open>base\<close>).
\<close>

datatype BlockObject = BlockObject
  (source: string)
  (obj_block: Block)
  (obj_base: "BlockObject option")

section \<open>Clean-up of block syntax (BlockCompiler.compile)\<close>












section \<open>Selectors (parseSelector.ts)\<close>

text \<open>
  Modelled from the spec: \<open>CompoundSelector\<close> and \<open>ParsedSelector\<close> (parseSelector.ts is
  not among the sources). A parsed selector is a linked chain of compound selectors
  joined by combinators; a compound selector is the ordered sequence of its nodes (each
  node by its text), an optional pseudo-element, and the link to the next compound
  selector (the field \<open>next\<close>, here \<open>next_sel\<close>). A combinator is its \<open>value\<close>: \<open>'' ''\<close>,
  \<open>''>''\<close>, \<open>''+''\<close> or \<open>''~''\<close>.
\<close>

datatype CompoundSelector = CompoundSelector
  (sel_nodes: "string list")
  (pseudoelement: "string option")
  (next_sel: "(string \<times> CompoundSelector) option")

datatype ParsedSelector = ParsedSelector (ps_selector: CompoundSelector)

text \<open>
  Modelled from the spec: \<open>append(combinator, selector)\<close> links a selector after the last
  compound selector of the chain.
\<close>

fun append_sel :: "CompoundSelector \<Rightarrow> string \<Rightarrow> CompoundSelector \<Rightarrow> CompoundSelector" where
  "append_sel (CompoundSelector ns pe None) c s = CompoundSelector ns pe (Some (c, s))"
| "append_sel (CompoundSelector ns pe (Some (c', t))) c s =
     CompoundSelector ns pe (Some (c', append_sel t c s))"

text \<open>
  Modelled from the spec: \<open>removeLast()\<close> cuts the last link of the chain and returns it
  (combinator and compound selector), or \<open>undefined\<close> when the chain is a single compound
  selector. The first component is the chain that is left.
\<close>

fun removeLast :: "CompoundSelector \<Rightarrow> CompoundSelector \<times> (string \<times> CompoundSelector) option" where
  "removeLast (CompoundSelector ns pe None) = (CompoundSelector ns pe None, None)"
| "removeLast (CompoundSelector ns pe (Some (c, t))) =
     (case next_sel t of
        None \<Rightarrow> (CompoundSelector ns pe None, Some (c, t))
      | Some l \<Rightarrow> (case removeLast t of (t', lst) \<Rightarrow> (CompoundSelector ns pe (Some (c, t')), lst)))"

text \<open>
  Modelled from the spec: \<open>mergeNodes(a, b)\<close> clones \<open>a\<close> and appends the nodes of \<open>b\<close>,
  a node with the same text only once: the spec merges \<open>.a > .b\<close> and \<open>.c > .b\<close> to
  \<open>.a.c > .b\<close>. The functions below take \<open>mergeNodes\<close> as a parameter; this one is used
  where a concrete one is needed, on selectors without pseudo-elements.
\<close>

definition addNode :: "string \<Rightarrow> string list \<Rightarrow> string list" where
  "addNode n ns = (if n \<in> set ns then ns else ns @ [n])"

fun mergeNodes_dedup :: "CompoundSelector \<Rightarrow> CompoundSelector \<Rightarrow> CompoundSelector" where
  "mergeNodes_dedup (CompoundSelector ns pe nx) b =
     CompoundSelector (fold addNode (sel_nodes b) (fold addNode ns [])) pe nx"

text \<open>
  Modelled from the spec: the \<open>length\<close> of a parsed selector is the number of its compound
  selectors, its \<open>key\<close> the last one.
\<close>

fun chain_length :: "CompoundSelector \<Rightarrow> nat" where
  "chain_length (CompoundSelector ns pe None) = 1"
| "chain_length (CompoundSelector ns pe (Some (c, t))) = Suc (chain_length t)"

definition sel_length :: "ParsedSelector \<Rightarrow> nat" where
  "sel_length s = chain_length (ps_selector s)"

fun lastSibling :: "CompoundSelector \<Rightarrow> CompoundSelector" where
  "lastSibling (CompoundSelector ns pe None) = CompoundSelector ns pe None"
| "lastSibling (CompoundSelector ns pe (Some (c, t))) = lastSibling t"

definition key :: "ParsedSelector \<Rightarrow> CompoundSelector" where
  "key s = lastSibling (ps_selector s)"

section \<open>Merging key selectors (ConflictResolver.mergeKeySelectors)\<close>

definition SIBLING_COMBINATORS :: "string list" where
  "SIBLING_COMBINATORS = [''+'', ''~'']"

definition HIERARCHICAL_COMBINATORS :: "string list" where
  "HIERARCHICAL_COMBINATORS = ['' '', ''>'']"

definition CONTIGUOUS_COMBINATORS :: "string list" where
  "CONTIGUOUS_COMBINATORS = [''+'', ''>'']"

definition NONCONTIGUOUS_COMBINATORS :: "string list" where
  "NONCONTIGUOUS_COMBINATORS = [''~'', '' '']"

text \<open>\<open>Set.has\<close>.\<close>

definition has :: "string list \<Rightarrow> string \<Rightarrow> bool" where
  "has xs x = (x \<in> set xs)"

text \<open>
  \<open>splitSelector\<close>: context, combinator and key of a chain; context and combinator are
  \<open>undefined\<close> for a single compound selector.
\<close>

definition splitSelector ::
  "CompoundSelector \<Rightarrow> CompoundSelector option \<times> string option \<times> CompoundSelector" where
  "splitSelector s =
     (case removeLast s of
        (s', Some (combinator, lst)) \<Rightarrow> (Some s', Some combinator, lst)
      | (s', None) \<Rightarrow> (None, None, s'))"

text \<open>
  The case analysis of \<open>mergeKeySelectors\<close> on the two contexts and combinators, in the
  order of the source: the first equation is the branch where both selectors have a
  context, with its chain of \<open>if\<close>/\<open>else if\<close>; the last three are the branches for one
  context or none.
\<close>

fun mergeContexts ::
  "(CompoundSelector \<Rightarrow> CompoundSelector \<Rightarrow> CompoundSelector)
   \<Rightarrow> CompoundSelector option \<Rightarrow> string option \<Rightarrow> CompoundSelector option \<Rightarrow> string option
   \<Rightarrow> CompoundSelector \<Rightarrow> error + CompoundSelector list" where
  "mergeContexts mergeNodes (Some context1) (Some combinator1) (Some context2) (Some combinator2) mergedKey =
     (if has CONTIGUOUS_COMBINATORS combinator1 \<and> combinator1 = combinator2 then
        Inr [append_sel (mergeNodes context1 context2) combinator1 mergedKey]
      else if has SIBLING_COMBINATORS combinator1 \<and> has HIERARCHICAL_COMBINATORS combinator2 then
        Inr [append_sel (append_sel context2 combinator2 context1) combinator1 mergedKey]
      else if has HIERARCHICAL_COMBINATORS combinator1 \<and> has SIBLING_COMBINATORS combinator2 then
        Inr [append_sel (append_sel context1 combinator1 context2) combinator2 mergedKey]
      else if has NONCONTIGUOUS_COMBINATORS combinator1 \<and> has NONCONTIGUOUS_COMBINATORS combinator2 then
        Inr [append_sel (mergeNodes context1 context2) combinator2 mergedKey,
             append_sel (append_sel context1 combinator1 context2) combinator2 mergedKey,
             append_sel (append_sel context2 combinator1 context1) combinator2 mergedKey]
      else if has NONCONTIGUOUS_COMBINATORS combinator1 \<and> has CONTIGUOUS_COMBINATORS combinator2
              \<and> ((has HIERARCHICAL_COMBINATORS combinator1 \<and> has HIERARCHICAL_COMBINATORS combinator2)
                   \<or> (has SIBLING_COMBINATORS combinator1 \<and> has SIBLING_COMBINATORS combinator2)) then
        Inr [append_sel (mergeNodes context1 context2) combinator2 mergedKey,
             append_sel (append_sel context1 combinator1 context2) combinator2 mergedKey]
      else if has NONCONTIGUOUS_COMBINATORS combinator2 \<and> has CONTIGUOUS_COMBINATORS combinator1
              \<and> ((has HIERARCHICAL_COMBINATORS combinator2 \<and> has HIERARCHICAL_COMBINATORS combinator1)
                   \<or> (has SIBLING_COMBINATORS combinator2 \<and> has SIBLING_COMBINATORS combinator1)) then
        Inr [append_sel (mergeNodes context1 context2) combinator1 mergedKey,
             append_sel (append_sel context2 combinator2 context1) combinator1 mergedKey]
      else
        Inl (InvalidBlockSyntax (''Cannot merge selectors with combinators: '' @ [CHR 0x27]
               @ combinator1 @ [CHR 0x27] @ '' and '' @ [CHR 0x27] @ combinator2 @ [CHR 0x27]
               @ '' [FIXME?].'')))"
| "mergeContexts mergeNodes (Some context1) (Some combinator1) context2 combinator2 mergedKey =
     Inr [append_sel context1 combinator1 mergedKey]"
| "mergeContexts mergeNodes context1 combinator1 (Some context2) (Some combinator2) mergedKey =
     Inr [append_sel context2 combinator2 mergedKey]"
| "mergeContexts mergeNodes context1 combinator1 context2 combinator2 mergedKey = Inr [mergedKey]"

definition mergeKeySelectors ::
  "(CompoundSelector \<Rightarrow> CompoundSelector \<Rightarrow> CompoundSelector)
   \<Rightarrow> ParsedSelector \<Rightarrow> ParsedSelector \<Rightarrow> error + ParsedSelector list" where
  "mergeKeySelectors mergeNodes s1 s2 =
     (if sel_length s1 > 2 \<and> sel_length s2 > 2 then
        Inl (InvalidBlockSyntax
               ''Cannot resolve selectors with more than 1 combinator at this time [FIXME].'')
      else
        (case splitSelector (ps_selector s1) of (context1, combinator1, key1) \<Rightarrow>
         (case splitSelector (ps_selector s2) of (context2, combinator2, key2) \<Rightarrow>
          (case mergeContexts mergeNodes context1 combinator1 context2 combinator2
                  (mergeNodes key1 key2) of
             Inl e \<Rightarrow> Inl e
           | Inr mergedSels \<Rightarrow> Inr (map ParsedSelector mergedSels)))))"

section \<open>Explicit resolution (ConflictResolver.resolve)\<close>

subsection \<open>The pattern \<open>RESOLVE_RE\<close>\<close>

text \<open>
  \<open>/resolve(-inherited)?\(("|')([^\2]*)\2\)/\<close>, as \<open>String.match\<close> applies it: the leftmost
  match; inside the character class \<open>\2\<close> is the character with code 2, so the class takes
  any other character, greedily; outside it \<open>\2\<close> is the opening quote. \<open>matchBody q p\<close> is
  the third group in \<open>p\<close>, the longest run of allowed characters after the opening quote:
  the text before the last \<open>q)\<close> of \<open>p\<close>.
\<close>

fun matchBody :: "char \<Rightarrow> string \<Rightarrow> string option" where
  "matchBody q [] = None"
| "matchBody q (c # cs) =
     (case matchBody q cs of
        Some r \<Rightarrow> Some (c # r)
      | None \<Rightarrow> (if c = q \<and> startsWith cs '')'' then Some [] else None))"

text \<open>A match that starts at the head of the string: group 1 is present or not, group 3.\<close>

definition matchResolveHere :: "string \<Rightarrow> (bool \<times> string) option" where
  "matchResolveHere s =
     (if startsWith s ''resolve'' then
        (let r = drop 7 s;
             inherited = startsWith r ''-inherited'';
             r' = (if inherited then drop 10 r else r)
         in (case r' of
               c1 # q # rest \<Rightarrow>
                 (if c1 = CHR ''('' \<and> (q = CHR 0x22 \<or> q = CHR 0x27)
                  then map_option (Pair inherited) (matchBody q (takeWhile (\<lambda>c. c \<noteq> CHR 0x02) rest))
                  else None)
             | _ \<Rightarrow> None))
      else None)"

fun matchResolve :: "string \<Rightarrow> (bool \<times> string) option" where
  "matchResolve [] = None"
| "matchResolve (c # cs) =
     (case matchResolveHere (c # cs) of Some m \<Rightarrow> Some m | None \<Rightarrow> matchResolve cs)"

text \<open>\<open>value.match(RESOLVE_RE)\<close> as a condition: the value is a resolution.\<close>

definition isResolution :: "string \<Rightarrow> bool" where
  "isResolution v = (matchResolve v \<noteq> None)"

subsection \<open>What the resolver is given\<close>

text \<open>
  An entry of a key selector query: a selector of the other block that targets the
  style object, and the rule it belongs to. The result of the query: the entries for the
  element itself (\<open>main\<close>) and for each pseudo-element (\<open>other\<close>).
\<close>

record ParsedSelectorAndRule =
  parsedSelector :: ParsedSelector
  q_rule :: node

record ClassifiedParsedSelectors =
  q_main :: "ParsedSelectorAndRule list"
  q_other :: "string \<Rightarrow> ParsedSelectorAndRule list option"

text \<open>
  The collaborators of the resolver that are not among the sources, as parameters:
  \<open>block.lookup(reference)\<close> (LocalScope), \<open>parseSelector\<close> and the \<open>toString\<close> of a parsed
  selector (parseSelector.ts), \<open>other.block.rewriteSelector(selector, opts)\<close> (it goes
  through \<open>parseSelector\<close>), \<open>new QueryKeySelector(other).execute(root, other.block)\<close>
  (query.ts) and \<open>mergeNodes\<close> (here \<open>env_mergeNodes\<close>); for \<open>resolveInheritance\<close>,
  \<open>blockObjectOf\<close> is \<open>BlockParser.getBlockNode(key)\<close> followed by
  \<open>block.nodeAndTypeToBlockObject\<close> (either may find nothing), and \<open>detectConflicts\<close> is
  \<open>conflictDetection.detectConflicts(obj, base).getConflictSet(pseudoelement)\<close>, the pairs
  of conflicting properties in the order of the set.
\<close>

record env =
  lookup :: "Block \<Rightarrow> string \<Rightarrow> BlockObject option"
  parseSelector :: "string \<Rightarrow> ParsedSelector list"
  selectorToString :: "ParsedSelector \<Rightarrow> string"
  rewriteSelector :: "Block \<Rightarrow> ParsedSelector \<Rightarrow> ParsedSelector"
  queryKeySelector :: "BlockObject \<Rightarrow> node list \<Rightarrow> ClassifiedParsedSelectors"
  env_mergeNodes :: "CompoundSelector \<Rightarrow> CompoundSelector \<Rightarrow> CompoundSelector"
  blockObjectOf :: "Block \<Rightarrow> CompoundSelector \<Rightarrow> BlockObject option"
  detectConflicts :: "BlockObject \<Rightarrow> BlockObject \<Rightarrow> string option \<Rightarrow> (string \<times> string) list option"

subsection \<open>Walking declarations\<close>

text \<open>The children of a container; a declaration or a comment has none.\<close>

fun childNodes :: "node \<Rightarrow> node list" where
  "childNodes (Rule s ns) = ns"
| "childNodes (AtRule a ps ns) = ns"
| "childNodes (Decl p v) = []"
| "childNodes (Comment c) = []"

text \<open>
  \<open>container.walkDecls(prop, callback)\<close>: the declarations of that property below the
  container, depth first, each with the index the callback receives: its position among
  the children of its own parent. The last argument is the index of the head of the list.
\<close>

fun walkDecls :: "string \<Rightarrow> node list \<Rightarrow> nat \<Rightarrow> (nat \<times> string) list" where
  "walkDecls p [] i = []"
| "walkDecls p (Decl q v # xs) i = (if q = p then [(i, v)] else []) @ walkDecls p xs (Suc i)"
| "walkDecls p (Rule s ns # xs) i = walkDecls p ns 0 @ walkDecls p xs (Suc i)"
| "walkDecls p (AtRule a ps ns # xs) i = walkDecls p ns 0 @ walkDecls p xs (Suc i)"
| "walkDecls p (Comment c # xs) i = walkDecls p xs (Suc i)"

text \<open>A rule whose children are declarations and comments only.\<close>

fun flat :: "node list \<Rightarrow> bool" where
  "flat [] = True"
| "flat (Decl p v # xs) = flat xs"
| "flat (Comment c # xs) = flat xs"
| "flat (x # xs) = False"

subsection \<open>Override or underride\<close>

text \<open>The variables of the scan over the declarations of the same property.\<close>

record scan =
  isOverride :: bool
  foundOtherValue :: "nat option"
  foundResolve :: "nat option"
  otherDecls :: "string list"

definition scan0 :: scan where
  "scan0 = \<lparr>isOverride = False, foundOtherValue = None, foundResolve = None, otherDecls = []\<rparr>"

definition mixedOrder :: "string \<Rightarrow> error" where
  "mixedOrder p = InvalidBlockSyntax (''Resolving '' @ p
      @ '' must happen either before or after all other values for '' @ p @ ''.'')"

text \<open>
  The callback of \<open>decl.parent.walkDecls(decl.prop, ...)\<close>, folded over the declarations
  it is called on. \<open>p\<close> and \<open>v\<close> are \<open>decl.prop\<close> and \<open>decl.value\<close>; of the other
  declarations only the value is kept (\<open>otherDecls\<close> is read through \<open>.value\<close> alone).
\<close>

fun scanDecls :: "string \<Rightarrow> string \<Rightarrow> (nat \<times> string) list \<Rightarrow> scan \<Rightarrow> error + scan" where
  "scanDecls p v [] st = Inr st"
| "scanDecls p v ((idx, ov) # rest) st =
     (if isResolution ov then
        (if ov \<noteq> v then scanDecls p v rest st
         else scanDecls p v rest
                (st\<lparr>foundResolve := Some idx, isOverride := (foundOtherValue st \<noteq> None)\<rparr>))
      else
        (if (case (foundOtherValue st, foundResolve st) of
               (Some fv, Some fr) \<Rightarrow> fv < fr
             | _ \<Rightarrow> False)
         then Inl (mixedOrder p)
         else scanDecls p v rest
                (st\<lparr>foundOtherValue := Some idx, otherDecls := otherDecls st @ [ov]\<rparr>)))"

subsection \<open>One level of the inheritance chain (resolveConflictWith)\<close>

text \<open>\<open>Array.join\<close>.\<close>

fun join :: "string \<Rightarrow> string list \<Rightarrow> string" where
  "join sep [] = []"
| "join sep [x] = x"
| "join sep (x # y # ys) = x @ sep @ join sep (y # ys)"

text \<open>
  The check for identical values: the walk over the declarations of the property in the
  target rule, with the counter \<open>d\<close>; it stops (\<open>return false\<close>) at the first value that
  differs or has no partner. The result is \<open>sameValues\<close> and \<open>d\<close>.
\<close>

fun sameValuesWalk :: "string list \<Rightarrow> (nat \<times> string) list \<Rightarrow> nat \<Rightarrow> bool \<times> nat" where
  "sameValuesWalk ods [] d = (True, d)"
| "sameValuesWalk ods ((idx, ov) # rest) d =
     (if \<not> isResolution ov then
        (if length ods = d then (False, d)
         else if ov \<noteq> ods ! d then (False, Suc d)
         else sameValuesWalk ods rest (Suc d))
      else sameValuesWalk ods rest d)"

text \<open>The values of the declarations of the property in a rule that are not resolutions.\<close>

definition concreteValues :: "string \<Rightarrow> node \<Rightarrow> string list" where
  "concreteValues p r = filter (\<lambda>v. \<not> isResolution v) (map snd (walkDecls p (childNodes r) 0))"

text \<open>
  The body of \<open>resultSels.reverse().forEach\<close>, for one selector \<open>s\<close> of the other block and
  one selector \<open>cs\<close> of the current rule. The state is \<open>foundConflict\<close>, the set
  \<open>resolvedSelectors\<close> and the rules that follow the current rule, in the order of the
  tree: \<open>insertAfter(decl.parent, newRule)\<close> puts the new rule first.
\<close>

definition resolveSelector ::
  "env \<Rightarrow> string \<Rightarrow> string list \<Rightarrow> bool \<Rightarrow> BlockObject \<Rightarrow> ParsedSelector \<Rightarrow> ParsedSelectorAndRule
   \<Rightarrow> ConflictType \<times> string list \<times> node list \<Rightarrow> error + ConflictType \<times> string list \<times> node list" where
  "resolveSelector E p ods override other' cs s st =
     (case st of (foundConflict, resolvedSelectors, after) \<Rightarrow>
      (case mergeKeySelectors (env_mergeNodes E)
              (rewriteSelector E (obj_block other') (parsedSelector s)) cs of
         Inl e \<Rightarrow> Inl e
       | Inr newSels \<Rightarrow>
          (let newSelStr = join [CHR '','', CHR 0x0A] (map (selectorToString E) newSels) in
           if newSelStr \<in> set resolvedSelectors then Inr st
           else
             (let resolved' = resolvedSelectors @ [newSelStr];
                  (same, d) = sameValuesWalk ods (walkDecls p (childNodes (q_rule s)) 0) 0
              in if same \<and> length ods = d
                 then Inr (updateConflict foundConflict samevalues, resolved', after)
                 else
                   (let vals = concreteValues p (q_rule s);
                        found' = fold (\<lambda>v fc. updateConflict fc conflict) vals foundConflict;
                        newNodes = (if override then map (Decl p) vals
                                    else if vals \<noteq> [] then map (Decl p) ods else [])
                    in Inr (found', resolved',
                            if newNodes \<noteq> [] then Rule newSelStr newNodes # after else after))))))"

fun forEachResultSel ::
  "env \<Rightarrow> string \<Rightarrow> string list \<Rightarrow> bool \<Rightarrow> BlockObject \<Rightarrow> ParsedSelector
   \<Rightarrow> ParsedSelectorAndRule list
   \<Rightarrow> ConflictType \<times> string list \<times> node list \<Rightarrow> error + ConflictType \<times> string list \<times> node list" where
  "forEachResultSel E p ods override other' cs [] st = Inr st"
| "forEachResultSel E p ods override other' cs (s # ss) st =
     (case resolveSelector E p ods override other' cs s st of
        Inl e \<Rightarrow> Inl e
      | Inr st' \<Rightarrow> forEachResultSel E p ods override other' cs ss st')"

text \<open>
  \<open>curSel.forEach\<close>: for each selector of the current rule, the entries of the query for
  its pseudo-element, reversed. \<open>reverse()\<close> reverses the array inside the query result,
  so the result is part of the state.
\<close>

fun forEachCurSel ::
  "env \<Rightarrow> string \<Rightarrow> string list \<Rightarrow> bool \<Rightarrow> BlockObject \<Rightarrow> ParsedSelector list
   \<Rightarrow> ClassifiedParsedSelectors
   \<Rightarrow> ConflictType \<times> string list \<times> node list \<Rightarrow> error + ConflictType \<times> string list \<times> node list" where
  "forEachCurSel E p ods override other' [] res st = Inr st"
| "forEachCurSel E p ods override other' (cs # rest) res st =
     (case (case pseudoelement (key cs) of Some pe \<Rightarrow> q_other res pe | None \<Rightarrow> Some (q_main res)) of
        None \<Rightarrow> forEachCurSel E p ods override other' rest res st
      | Some [] \<Rightarrow> forEachCurSel E p ods override other' rest res st
      | Some (r # rs) \<Rightarrow>
          (let reversed = rev (r # rs);
               res' = (case pseudoelement (key cs) of
                         Some pe \<Rightarrow> res\<lparr>q_other := (q_other res)(pe \<mapsto> reversed)\<rparr>
                       | None \<Rightarrow> res\<lparr>q_main := reversed\<rparr>)
           in case forEachResultSel E p ods override other' cs reversed st of
                Inl e \<Rightarrow> Inl e
              | Inr st' \<Rightarrow> forEachCurSel E p ods override other' rest res' st'))"

text \<open>
  \<open>resolveConflictWith(referenceStr, other, decl, otherDecls, isOverride)\<close>. \<open>sel\<close> is the
  selector of the rule of the declaration, \<open>p\<close> its property, \<open>after\<close> the rules that
  follow that rule. The result is \<open>foundConflict\<close> and the rules that follow it now.
\<close>

definition resolveConflictWith ::
  "env \<Rightarrow> string \<Rightarrow> BlockObject \<Rightarrow> string \<Rightarrow> string \<Rightarrow> string list \<Rightarrow> bool \<Rightarrow> node list
   \<Rightarrow> error + ConflictType \<times> node list" where
  "resolveConflictWith E referenceStr other' sel p ods override after =
     (let curSel = parseSelector E sel in
      case block_root (obj_block other') of
        None \<Rightarrow> Inl (TypeError (''Cannot resolve. The block for '' @ referenceStr
                        @ '' is missing a stylesheet root''))
      | Some rt \<Rightarrow>
          (case forEachCurSel E p ods override other' curSel (queryKeySelector E other' rt)
                  (noconflict, [], after) of
             Inl e \<Rightarrow> Inl e
           | Inr (foundConflict, resolvedSelectors, after') \<Rightarrow> Inr (foundConflict, after')))"

subsection \<open>The walk up the inheritance chain\<close>

text \<open>
  The loop \<open>while (other && foundConflict === noconflict)\<close>, over the variables \<open>other\<close> and
  \<open>foundConflict\<close> and the rules that follow the current rule. It returns the three when
  the loop is left.
\<close>

fun walkChain ::
  "env \<Rightarrow> string \<Rightarrow> string \<Rightarrow> string \<Rightarrow> string list \<Rightarrow> bool
   \<Rightarrow> BlockObject option \<Rightarrow> ConflictType \<Rightarrow> node list
   \<Rightarrow> error + BlockObject option \<times> ConflictType \<times> node list" where
  "walkChain E referenceStr sel p ods override None foundConflict after =
     Inr (None, foundConflict, after)"
| "walkChain E referenceStr sel p ods override (Some (BlockObject src blk b)) foundConflict after =
     (if foundConflict = noconflict then
        (case resolveConflictWith E referenceStr (BlockObject src blk b) sel p ods override after of
           Inl e \<Rightarrow> Inl e
         | Inr (found', after') \<Rightarrow>
             (if found' = noconflict
              then walkChain E referenceStr sel p ods override b found' after'
              else Inr (Some (BlockObject src blk b), found', after')))
      else Inr (Some (BlockObject src blk b), foundConflict, after))"

text \<open>
  The inheritance chain of a style object: the object, its base, the base of its base,
  and so on.
\<close>

fun chain :: "BlockObject \<Rightarrow> BlockObject list" where
  "chain (BlockObject src blk b) =
     BlockObject src blk b # (case b of None \<Rightarrow> [] | Some o' \<Rightarrow> chain o')"

text \<open>
  The classification of one level of the chain: what \<open>resolveConflictWith\<close> returns for
  it, or nothing when it throws.
\<close>

definition levelClass ::
  "env \<Rightarrow> string \<Rightarrow> string \<Rightarrow> string \<Rightarrow> string list \<Rightarrow> bool \<Rightarrow> BlockObject \<Rightarrow> ConflictType option" where
  "levelClass E referenceStr sel p ods override l =
     (case resolveConflictWith E referenceStr l sel p ods override [] of
        Inl e \<Rightarrow> None
      | Inr (foundConflict, after) \<Rightarrow> Some foundConflict)"

text \<open>The state of a level with more rules after the inserted ones.\<close>

definition addAfter :: "node list \<Rightarrow> ConflictType \<times> string list \<times> node list \<Rightarrow> ConflictType \<times> string list \<times> node list" where
  "addAfter after st = (case st of (fc, rs, a) \<Rightarrow> (fc, rs, a @ after))"

subsection \<open>One declaration\<close>

definition noConcreteValue :: "string \<Rightarrow> error" where
  "noConcreteValue p = InvalidBlockSyntax (''Cannot resolve '' @ p @ '' without a concrete value.'')"

definition ownBlock :: error where
  "ownBlock = InvalidBlockSyntax ''Cannot resolve conflicts with your own block.''"

definition ancestorBlock :: error where
  "ancestorBlock = InvalidBlockSyntax ''Cannot resolve conflicts with ancestors of your own block.''"

definition noConflictFound :: "string \<Rightarrow> string \<Rightarrow> error" where
  "noConflictFound p referenceStr = InvalidBlockSyntax (''There are no conflicting values for '' @ p
      @ '' found in any selectors targeting '' @ referenceStr @ ''.'')"

text \<open>\<open>removeChild\<close>: the children without the one at index \<open>i\<close>.\<close>

definition removeAt :: "nat \<Rightarrow> 'a list \<Rightarrow> 'a list" where
  "removeAt i xs = take i xs @ drop (Suc i) xs"

text \<open>
  The callback of \<open>root.walkDecls\<close> in \<open>resolve\<close>, for the declaration at index \<open>i\<close> of the
  rule with selector \<open>sel\<close> and children \<open>ns\<close>, with \<open>after\<close> the siblings that follow the
  rule. A declaration that is no resolution is left alone. Otherwise the callback throws,
  or it returns the children without the declaration and the siblings with the new rules
  in front.
\<close>

definition resolveDecl ::
  "env \<Rightarrow> Block \<Rightarrow> string \<Rightarrow> node list \<Rightarrow> nat \<Rightarrow> node list \<Rightarrow> error + node list \<times> node list" where
  "resolveDecl E blk sel ns i after =
     (if i < length ns then
        (case ns ! i of
           Decl p v \<Rightarrow>
             (case matchResolve v of
                None \<Rightarrow> Inr (ns, after)
              | Some (resolveInherited, referenceStr) \<Rightarrow>
                  (case scanDecls p v (walkDecls p ns 0) scan0 of
                     Inl e \<Rightarrow> Inl e
                   | Inr st \<Rightarrow>
                       (if foundOtherValue st = None then Inl (noConcreteValue p)
                        else
                          (case lookup E blk referenceStr of
                             None \<Rightarrow> Inl (InvalidBlockSyntax (''Cannot find '' @ referenceStr))
                           | Some other' \<Rightarrow>
                               (if equal blk (Some (obj_block other')) then Inl ownBlock
                                else if \<not> resolveInherited \<and> isAncestor (obj_block other') (Some blk)
                                then Inl ancestorBlock
                                else
                                  (case walkChain E referenceStr sel p (otherDecls st) (isOverride st)
                                          (Some other') noconflict after of
                                     Inl e \<Rightarrow> Inl e
                                   | Inr (last_other, foundConflict, after') \<Rightarrow>
                                       (if \<not> resolveInherited \<and> foundConflict = noconflict
                                        then Inl (noConflictFound p referenceStr)
                                        else Inr (removeAt i ns, after'))))))))
         | _ \<Rightarrow> Inr (ns, after))
      else Inr (ns, after))"

section \<open>Inheritance (ConflictResolver.resolveInheritance)\<close>

text \<open>
  The state of the callback on one rule: the two caches \<open>handledConflicts\<close> and
  \<open>handledObjects\<close>, a set per pseudo-element each (modelled from the spec: \<open>Conflicts\<close> is
  not among the sources), and the children of the rule.
\<close>

record inherit_state =
  handledConflicts :: "(string option \<times> string) list"
  handledObjects :: "(string option \<times> BlockObject) list"
  rule_nodes :: "node list"

text \<open>\<open>rule.walkDecls((decl) => ruleProps.add(decl.prop))\<close>.\<close>

fun declProps :: "node list \<Rightarrow> string list" where
  "declProps [] = []"
| "declProps (Decl p v # xs) = p # declProps xs"
| "declProps (Rule s ns # xs) = declProps ns @ declProps xs"
| "declProps (AtRule a ps ns # xs) = declProps ns @ declProps xs"
| "declProps (Comment c # xs) = declProps xs"

text \<open>The body of \<open>conflictingProps.forEach\<close>, for one pair of conflicting properties.\<close>

definition injectProp ::
  "string \<Rightarrow> string \<Rightarrow> string option \<Rightarrow> string list \<Rightarrow> string \<times> string \<Rightarrow> inherit_state
   \<Rightarrow> inherit_state" where
  "injectProp blockBaseName baseSource pe ruleProps conflictPair st =
     (let thisProp = fst conflictPair in
      if thisProp \<in> set ruleProps \<and> (pe, thisProp) \<notin> set (handledConflicts st)
      then st\<lparr>handledConflicts := handledConflicts st @ [(pe, thisProp)],
              rule_nodes := Decl thisProp (''resolve-inherited('' @ [CHR 0x22] @ blockBaseName
                                @ baseSource @ [CHR 0x22] @ '')'') # rule_nodes st\<rparr>
      else st)"

text \<open>The body of \<open>parsedSelectors.forEach\<close>, for one selector of the rule.\<close>

definition injectForSelector ::
  "env \<Rightarrow> Block \<Rightarrow> string \<Rightarrow> ParsedSelector \<Rightarrow> inherit_state \<Rightarrow> inherit_state" where
  "injectForSelector E blk blockBaseName sel st =
     (let pe = pseudoelement (key sel) in
      case blockObjectOf E blk (key sel) of
        None \<Rightarrow> st
      | Some obj \<Rightarrow>
          (if (pe, obj) \<in> set (handledObjects st) then st
           else
             (let st1 = st\<lparr>handledObjects := handledObjects st @ [(pe, obj)]\<rparr> in
              case obj_base obj of
                None \<Rightarrow> st1
              | Some bs \<Rightarrow>
                  (case detectConflicts E obj bs pe of
                     None \<Rightarrow> st1
                   | Some [] \<Rightarrow> st1
                   | Some (c # cs) \<Rightarrow>
                       fold (injectProp blockBaseName (source bs) pe (declProps (rule_nodes st1)))
                            (c # cs) st1))))"

text \<open>The callback of \<open>root.walkRules\<close>: the children of the rule after it.\<close>

definition injectRule :: "env \<Rightarrow> Block \<Rightarrow> string \<Rightarrow> string \<Rightarrow> node list \<Rightarrow> node list" where
  "injectRule E blk blockBaseName sel ns =
     rule_nodes (fold (injectForSelector E blk blockBaseName) (parseSelector E sel)
                   \<lparr>handledConflicts = [], handledObjects = [], rule_nodes = ns\<rparr>)"

text \<open>The number of rules and at-rules, at any depth.\<close>

fun containers :: "node list \<Rightarrow> nat" where
  "containers [] = 0"
| "containers (Decl p v # xs) = containers xs"
| "containers (Rule s ns # xs) = Suc (containers ns + containers xs)"
| "containers (AtRule a ps ns # xs) = Suc (containers ns + containers xs)"
| "containers (Comment c # xs) = containers xs"

lemma containers_injectProp:
  "containers (rule_nodes (injectProp bn src pe rp c st)) = containers (rule_nodes st)"
  by (simp add: injectProp_def Let_def)

lemma containers_fold_injectProp:
  "containers (rule_nodes (fold (injectProp bn src pe rp) cs st)) = containers (rule_nodes st)"
  by (induction cs arbitrary: st) (simp_all add: containers_injectProp)

lemma containers_injectForSelector:
  "containers (rule_nodes (injectForSelector E blk bn sel st)) = containers (rule_nodes st)"
  by (simp add: injectForSelector_def Let_def containers_fold_injectProp containers_injectProp
           split: option.splits list.splits)

lemma containers_fold_injectForSelector:
  "containers (rule_nodes (fold (injectForSelector E blk bn) sels st)) = containers (rule_nodes st)"
  by (induction sels arbitrary: st) (simp_all add: containers_injectForSelector)

lemma containers_injectRule: "containers (injectRule E blk bn sel ns) = containers ns"
  by (simp add: injectRule_def containers_fold_injectForSelector)

text \<open>
  \<open>root.walkRules(callback)\<close>: the callback runs on a rule, then the walk goes into the
  children of the rule, the new declarations among them.
\<close>

function resolveInheritanceRules :: "env \<Rightarrow> Block \<Rightarrow> string \<Rightarrow> node list \<Rightarrow> node list" where
  "resolveInheritanceRules E blk bn [] = []"
| "resolveInheritanceRules E blk bn (Decl p v # xs) = Decl p v # resolveInheritanceRules E blk bn xs"
| "resolveInheritanceRules E blk bn (Rule s ns # xs) =
     Rule s (resolveInheritanceRules E blk bn (injectRule E blk bn s ns))
       # resolveInheritanceRules E blk bn xs"
| "resolveInheritanceRules E blk bn (AtRule a ps ns # xs) =
     AtRule a ps (resolveInheritanceRules E blk bn ns) # resolveInheritanceRules E blk bn xs"
| "resolveInheritanceRules E blk bn (Comment c # xs) = Comment c # resolveInheritanceRules E blk bn xs"
  by pat_completeness auto
termination
  by (relation "measures [\<lambda>(E, blk, bn, ns). containers ns, \<lambda>(E, blk, bn, ns). length ns]")
     (auto simp: containers_injectRule)

text \<open>
  \<open>resolveInheritance(root, block)\<close>: the rules are walked only when the block has a
  base and a base name (a name that is not the empty string, which is falsy).
\<close>

definition resolveInheritance :: "env \<Rightarrow> node list \<Rightarrow> Block \<Rightarrow> node list" where
  "resolveInheritance E rt blk =
     (case (base blk, baseName blk) of
        (Some blockBase, Some blockBaseName) \<Rightarrow>
          (if blockBaseName \<noteq> [] then resolveInheritanceRules E blk blockBaseName rt else rt)
      | _ \<Rightarrow> rt)"

section \<open>A small project\<close>

text \<open>
  Three blocks to run the resolver on. \<open>base.css\<close> has \<open>.foo { color: blue }\<close>;
  \<open>other.css\<close> extends it with \<open>.foo { color: red }\<close>; \<open>third.css\<close> extends it with
  \<open>.foo { float: left }\<close>. \<open>child.css\<close> extends \<open>base.css\<close> as well.
\<close>

definition base_block :: Block where
  "base_block = Block ''base.css'' ''base'' False None None
     (Some [Rule ''.foo'' [Decl ''color'' ''blue'']])"

definition other_block :: Block where
  "other_block = Block ''other.css'' ''other'' False (Some ''base'') (Some base_block)
     (Some [Rule ''.foo'' [Decl ''color'' ''red'']])"

definition third_block :: Block where
  "third_block = Block ''third.css'' ''third'' False (Some ''base'') (Some base_block)
     (Some [Rule ''.foo'' [Decl ''float'' ''left'']])"

definition main_block :: Block where
  "main_block = Block ''main.css'' ''main'' False None None None"

definition child_block :: Block where
  "child_block = Block ''child.css'' ''child'' False (Some ''base'') (Some base_block) None"

definition base_foo :: BlockObject where
  "base_foo = BlockObject ''.foo'' base_block None"

definition other_foo :: BlockObject where
  "other_foo = BlockObject ''.foo'' other_block (Some base_foo)"

definition third_foo :: BlockObject where
  "third_foo = BlockObject ''.foo'' third_block (Some base_foo)"

text \<open>A selector that is one compound selector with one node.\<close>

definition simpleSelector :: "string \<Rightarrow> ParsedSelector" where
  "simpleSelector s = ParsedSelector (CompoundSelector [s] None None)"

text \<open>The rules at the top of a stylesheet whose selector is the source of the object.\<close>

fun rulesFor :: "string \<Rightarrow> node list \<Rightarrow> ParsedSelectorAndRule list" where
  "rulesFor src [] = []"
| "rulesFor src (Rule s ns # xs) =
     (if s = src then \<lparr>parsedSelector = simpleSelector s, q_rule = Rule s ns\<rparr> # rulesFor src xs
      else rulesFor src xs)"
| "rulesFor src (x # xs) = rulesFor src xs"

text \<open>
  An environment for these blocks: references are looked up by name (\<open>.bar\<close> is a class
  of the block itself), selectors are single compound selectors and are left as they are
  by the rewriting; \<open>.foo\<close> in a block that extends \<open>base.css\<close> overrides \<open>base.foo\<close>, in
  conflict on \<open>color\<close>.
\<close>

definition example_env :: env where
  "example_env =
     \<lparr>lookup = (\<lambda>b r. if r = ''other.foo'' then Some other_foo
                     else if r = ''third.foo'' then Some third_foo
                     else if r = ''base.foo'' then Some base_foo
                     else if r = ''.bar'' then Some (BlockObject ''.bar'' b None)
                     else None),
      parseSelector = (\<lambda>s. [simpleSelector s]),
      selectorToString = (\<lambda>s. concat (sel_nodes (ps_selector s))),
      rewriteSelector = (\<lambda>b s. s),
      queryKeySelector = (\<lambda>l rt. \<lparr>q_main = rulesFor (source l) rt, q_other = (\<lambda>pe. None)\<rparr>),
      env_mergeNodes = mergeNodes_dedup,
      blockObjectOf = (\<lambda>b k. if sel_nodes k = [''.foo''] \<and> base b = Some base_block
                              then Some (BlockObject ''.foo'' b (Some base_foo)) else None),
      detectConflicts = (\<lambda>l l' pe. if pe = None then Some [(''color'', ''color'')] else None)\<rparr>"

section \<open>Styles (Style.ts)\<close>

text \<open>
  Style objects and \<open>Set\<close> objects live in a store, by address, so that the cache of an
  object and the sets that \<open>resolveStyles\<close> returns can be told apart. A style object has
  its \<open>base\<close> pointer (from \<open>Inheritable\<close>) and the field \<open>_resolvedStyles\<close>, the address
  of the cached set or \<open>undefined\<close>. A set is the list of its elements in insertion order.
  \<open>next_set\<close> is the address the next \<open>new Set\<close> gets.
\<close>

type_synonym addr = nat

record style_obj =
  style_base :: "addr option"
  resolvedStyles_cache :: "addr option"

record heap =
  styles :: "addr \<Rightarrow> style_obj"
  sets :: "addr \<Rightarrow> addr list"
  next_set :: addr

text \<open>\<open>Set.add\<close>.\<close>

definition set_add :: "addr \<Rightarrow> addr list \<Rightarrow> addr list" where
  "set_add x xs = (if x \<in> set xs then xs else xs @ [x])"

text \<open>\<open>new Set(iterable)\<close>: a new set object with the elements of the iterable.\<close>

definition newSet :: "heap \<Rightarrow> addr list \<Rightarrow> addr \<times> heap" where
  "newSet h xs =
     (next_set h,
      h\<lparr>sets := (sets h)(next_set h := fold set_add xs []), next_set := Suc (next_set h)\<rparr>)"

text \<open>\<open>unionInto(a, b)\<close>: every element of the set \<open>b\<close> is added to the set \<open>a\<close>.\<close>

definition unionInto :: "heap \<Rightarrow> addr \<Rightarrow> addr \<Rightarrow> heap" where
  "unionInto h a b = h\<lparr>sets := (sets h)(a := fold set_add (sets h b) (sets h a))\<rparr>"

text \<open>
  Modelled from the spec: \<open>resolveInheritance()\<close> of \<open>Inheritable\<close> (not among the sources)
  collects everything reached by walking \<open>base\<close> pointers. The walk has no bound: on a
  cycle of base pointers it does not return, and the result is \<open>None\<close>.
\<close>

partial_function (option) walkBases :: "heap \<Rightarrow> addr option \<Rightarrow> addr list \<Rightarrow> addr list option" where
  "walkBases h b inherited =
     (case b of
        None \<Rightarrow> Some inherited
      | Some a \<Rightarrow> walkBases h (style_base (styles h a)) (inherited @ [a]))"

declare walkBases.simps [code]

text \<open>\<open>impliedStyles()\<close> returns \<open>undefined\<close>.\<close>

definition impliedStyles :: "heap \<Rightarrow> addr \<Rightarrow> addr list option" where
  "impliedStyles h s = None"

text \<open>
  The two loops of \<open>resolveStyles\<close>: over the inherited styles, and for each one over the
  styles it implies, whose resolved styles are added to the cached set at address \<open>c\<close>.
  \<open>rec\<close> is the recursive call \<open>i.resolveStyles()\<close>.
\<close>

fun loopImplied ::
  "(heap \<Rightarrow> addr \<Rightarrow> (addr \<times> heap) option) \<Rightarrow> addr \<Rightarrow> addr list \<Rightarrow> heap \<Rightarrow> heap option" where
  "loopImplied rec c [] h = Some h"
| "loopImplied rec c (i # is) h =
     (case rec h i of
        None \<Rightarrow> None
      | Some (r, h') \<Rightarrow> loopImplied rec c is (unionInto h' c r))"

fun loopInherited ::
  "(heap \<Rightarrow> addr \<Rightarrow> (addr \<times> heap) option) \<Rightarrow> addr \<Rightarrow> addr list \<Rightarrow> heap \<Rightarrow> heap option" where
  "loopInherited rec c [] h = Some h"
| "loopInherited rec c (s # ss) h =
     (case impliedStyles h s of
        None \<Rightarrow> loopInherited rec c ss h
      | Some implied \<Rightarrow>
          (case loopImplied rec c implied h of
             None \<Rightarrow> None
           | Some h' \<Rightarrow> loopInherited rec c ss h'))"

text \<open>
  The body of \<open>resolveStyles\<close>. It returns the address of the set it returns, and the
  store after the call.
\<close>

definition resolveStylesBody ::
  "(heap \<Rightarrow> addr \<Rightarrow> (addr \<times> heap) option) \<Rightarrow> heap \<Rightarrow> addr \<Rightarrow> (addr \<times> heap) option" where
  "resolveStylesBody rec h s =
     (case resolvedStyles_cache (styles h s) of
        Some c \<Rightarrow> Some (newSet h (sets h c))
      | None \<Rightarrow>
          (case walkBases h (style_base (styles h s)) [] of
             None \<Rightarrow> None
           | Some inheritedStyles \<Rightarrow>
               (let (c, h1) = newSet h inheritedStyles;
                    h2 = h1\<lparr>styles := (styles h1)(s := (styles h1 s)\<lparr>resolvedStyles_cache := Some c\<rparr>)\<rparr>;
                    h3 = h2\<lparr>sets := (sets h2)(c := set_add s (sets h2 c))\<rparr>
                in (case loopInherited rec c inheritedStyles h3 of
                      None \<Rightarrow> None
                    | Some h4 \<Rightarrow> Some (newSet h4 (sets h4 c))))))"

text \<open>
  \<open>resolveStyles()\<close>, with fuel for the depth of the calls through implied styles: a call
  with no fuel left does not return.
\<close>

primrec resolveStyles :: "nat \<Rightarrow> heap \<Rightarrow> addr \<Rightarrow> (addr \<times> heap) option" where
  "resolveStyles 0 = resolveStylesBody (\<lambda>h i. None)"
| "resolveStyles (Suc fuel) = resolveStylesBody (resolveStyles fuel)"

text \<open>
  The chain of base pointers that starts at \<open>b\<close> ends, and \<open>xs\<close> are the objects on it.
\<close>

inductive base_chain :: "heap \<Rightarrow> addr option \<Rightarrow> addr list \<Rightarrow> bool" where
  chain_end: "base_chain h None []"
| chain_step: "base_chain h (style_base (styles h a)) xs \<Longrightarrow> base_chain h (Some a) (a # xs)"

text \<open>One step along a base pointer.\<close>

definition baseRel :: "heap \<Rightarrow> (addr \<times> addr) set" where
  "baseRel h = {(x, y). style_base (styles h x) = Some y}"

text \<open>
  What a caller does after a first call of \<open>resolveStyles\<close> on the object \<open>s\<close>: it calls
  \<open>resolveStyles\<close> on \<open>s\<close> again (with some fuel), it overwrites one of the sets it has been
  returned so far (the \<open>k\<close>-th) with any contents, or it changes the base pointer of any
  object. The cached set is not among the sets a caller holds.
\<close>

datatype action =
    CallResolveStyles nat
  | OverwriteReturned nat "addr list"
  | ChangeBase addr "addr option"

text \<open>
  A sequence of such actions from the store \<open>h\<close>, with the addresses \<open>returned\<close> so far: for
  each call, the address of the set it returns and the contents of that set at the
  return; \<open>None\<close> when a call does not return.
\<close>

fun later :: "addr \<Rightarrow> heap \<Rightarrow> addr list \<Rightarrow> action list \<Rightarrow> (addr \<times> addr list) list option" where
  "later s h returned [] = Some []"
| "later s h returned (CallResolveStyles fuel # acts) =
     (case resolveStyles fuel h s of
        None \<Rightarrow> None
      | Some (r, h') \<Rightarrow>
          (case later s h' (returned @ [r]) acts of
             None \<Rightarrow> None
           | Some results \<Rightarrow> Some ((r, sets h' r) # results)))"
| "later s h returned (OverwriteReturned k ys # acts) =
     later s (if k < length returned then h\<lparr>sets := (sets h)(returned ! k := ys)\<rparr> else h)
       returned acts"
| "later s h returned (ChangeBase t b # acts) =
     later s (h\<lparr>styles := (styles h)(t := (styles h t)\<lparr>style_base := b\<rparr>)\<rparr>) returned acts"

text \<open>The number of calls among the actions.\<close>

fun calls :: "action list \<Rightarrow> nat" where
  "calls [] = 0"
| "calls (CallResolveStyles fuel # acts) = Suc (calls acts)"
| "calls (a # acts) = calls acts"

text \<open>A store with two style objects: 1 with base 2, and 2 with no base.\<close>

definition example_heap :: heap where
  "example_heap =
     \<lparr>styles = (\<lambda>a. if a = 1 then \<lparr>style_base = Some 2, resolvedStyles_cache = None\<rparr>
                    else \<lparr>style_base = None, resolvedStyles_cache = None\<rparr>),
      sets = (\<lambda>a. []),
      next_set = 10\<rparr>"

section \<open>Properties\<close>

subsection \<open>Conflict classification\<close>

text \<open>
  C7. \<open>updateConflict\<close>: \<open>conflict\<close> in either argument gives \<open>conflict\<close>; \<open>noconflict\<close> as
  first argument gives the second argument (and as second argument gives the first);
  \<open>samevalues\<close> as first argument gives \<open>conflict\<close> when the second is \<open>conflict\<close> and
  \<open>samevalues\<close> otherwise.
\<close>

theorem updateConflict_table:
  "updateConflict conflict t = conflict
   \<and> updateConflict t conflict = conflict
   \<and> updateConflict noconflict t = t
   \<and> updateConflict t noconflict = t
   \<and> updateConflict samevalues t = (if t = conflict then conflict else samevalues)"
  by (cases t) simp_all

subsection \<open>The block name\<close>

lemma set_names_after_reset:
  "set_names (Block ident nm True bn b r) ns =
     (replicate (length ns) (Inl (CssBlockError ''Can not set block name more than once.'')),
      Block ident nm True bn b r)"
  by (induction ns) simp_all

text \<open>
  C8. On a freshly constructed block the first assignment to \<open>name\<close> succeeds and stores
  the name; every later assignment throws "Can not set block name more than once." and
  the stored name stays the first one assigned.
\<close>

theorem set_name_exactly_once:
  "set_name (newBlock nm ident) n1 = Inr (Block ident n1 True None None None)
   \<and> name (Block ident n1 True None None None) = n1
   \<and> set_names (newBlock nm ident) (n1 # ns) =
       (Inr () # replicate (length ns) (Inl (CssBlockError ''Can not set block name more than once.'')),
        Block ident n1 True None None None)"
  by (simp add: newBlock_def set_names_after_reset)

subsection \<open>Clean-up\<close>




















subsection \<open>Merging key selectors\<close>

lemmas combinator_sets =
  has_def CONTIGUOUS_COMBINATORS_def NONCONTIGUOUS_COMBINATORS_def
  SIBLING_COMBINATORS_def HIERARCHICAL_COMBINATORS_def

lemma mergeKeySelectors_one_combinator:
  "mergeKeySelectors mergeNodes
     (ParsedSelector (CompoundSelector n1 p1 (Some (c1, CompoundSelector k1 q1 None))))
     (ParsedSelector (CompoundSelector n2 p2 (Some (c2, CompoundSelector k2 q2 None))))
   = (case mergeContexts mergeNodes (Some (CompoundSelector n1 p1 None)) (Some c1)
             (Some (CompoundSelector n2 p2 None)) (Some c2)
             (mergeNodes (CompoundSelector k1 q1 None) (CompoundSelector k2 q2 None)) of
        Inl e \<Rightarrow> Inl e
      | Inr mergedSels \<Rightarrow> Inr (map ParsedSelector mergedSels))"
  by (simp add: mergeKeySelectors_def sel_length_def splitSelector_def)

text \<open>
  C4, as stated, fails: \<open>.a ~ .b\<close> and \<open>.c .b\<close> have two non-contiguous combinators, and
  the result is the single nested selector \<open>.c .a ~ .b\<close>, not three alternatives: the
  sibling-then-hierarchical branch comes first.
\<close>

theorem mergeKeySelectors_noncontiguous_counterexample:
  "mergeKeySelectors mergeNodes_dedup
     (ParsedSelector (CompoundSelector [''.a''] None (Some (''~'', CompoundSelector [''.b''] None None))))
     (ParsedSelector (CompoundSelector [''.c''] None (Some ('' '', CompoundSelector [''.b''] None None))))
   = Inr [ParsedSelector (CompoundSelector [''.c''] None (Some ('' '',
            CompoundSelector [''.a''] None (Some (''~'',
              CompoundSelector [''.b''] None None)))))]"
  by (simp add: mergeKeySelectors_one_combinator combinator_sets addNode_def)

text \<open>
  C4, amended. For two selectors with one combinator each, \<open>context1 c1 key1\<close> and
  \<open>context2 c2 key2\<close>: when the combinators are equal and contiguous (\<open>>\<close> or \<open>+\<close>) the
  result is the one selector of the merged contexts, the combinator and the merged keys;
  when they are equal and non-contiguous (both the descendant space or both \<open>~\<close>) the
  result is the three alternatives merged contexts, context1 then context2, context2 then
  context1, each ending in the merged keys; when one is \<open>~\<close> and the other the
  descendant space, the result is the one nested selector with the context of the
  descendant side first.
\<close>

theorem mergeKeySelectors_single_combinators:
  "(c1 = c2 \<and> (c1 = ''>'' \<or> c1 = ''+'') \<longrightarrow>
      mergeKeySelectors mergeNodes
        (ParsedSelector (CompoundSelector n1 p1 (Some (c1, CompoundSelector k1 q1 None))))
        (ParsedSelector (CompoundSelector n2 p2 (Some (c2, CompoundSelector k2 q2 None))))
      = Inr [ParsedSelector
               (append_sel (mergeNodes (CompoundSelector n1 p1 None) (CompoundSelector n2 p2 None)) c1
                  (mergeNodes (CompoundSelector k1 q1 None) (CompoundSelector k2 q2 None)))])
   \<and> (c1 = c2 \<and> (c1 = '' '' \<or> c1 = ''~'') \<longrightarrow>
      mergeKeySelectors mergeNodes
        (ParsedSelector (CompoundSelector n1 p1 (Some (c1, CompoundSelector k1 q1 None))))
        (ParsedSelector (CompoundSelector n2 p2 (Some (c2, CompoundSelector k2 q2 None))))
      = Inr [ParsedSelector
               (append_sel (mergeNodes (CompoundSelector n1 p1 None) (CompoundSelector n2 p2 None)) c1
                  (mergeNodes (CompoundSelector k1 q1 None) (CompoundSelector k2 q2 None))),
             ParsedSelector
               (CompoundSelector n1 p1 (Some (c1, CompoundSelector n2 p2 (Some (c1,
                  mergeNodes (CompoundSelector k1 q1 None) (CompoundSelector k2 q2 None)))))),
             ParsedSelector
               (CompoundSelector n2 p2 (Some (c1, CompoundSelector n1 p1 (Some (c1,
                  mergeNodes (CompoundSelector k1 q1 None) (CompoundSelector k2 q2 None))))))])
   \<and> (c1 = ''~'' \<and> c2 = '' '' \<longrightarrow>
      mergeKeySelectors mergeNodes
        (ParsedSelector (CompoundSelector n1 p1 (Some (c1, CompoundSelector k1 q1 None))))
        (ParsedSelector (CompoundSelector n2 p2 (Some (c2, CompoundSelector k2 q2 None))))
      = Inr [ParsedSelector
               (CompoundSelector n2 p2 (Some ('' '', CompoundSelector n1 p1 (Some (''~'',
                  mergeNodes (CompoundSelector k1 q1 None) (CompoundSelector k2 q2 None))))))])
   \<and> (c1 = '' '' \<and> c2 = ''~'' \<longrightarrow>
      mergeKeySelectors mergeNodes
        (ParsedSelector (CompoundSelector n1 p1 (Some (c1, CompoundSelector k1 q1 None))))
        (ParsedSelector (CompoundSelector n2 p2 (Some (c2, CompoundSelector k2 q2 None))))
      = Inr [ParsedSelector
               (CompoundSelector n1 p1 (Some ('' '', CompoundSelector n2 p2 (Some (''~'',
                  mergeNodes (CompoundSelector k1 q1 None) (CompoundSelector k2 q2 None))))))])"
  unfolding mergeKeySelectors_one_combinator
  by (auto simp: combinator_sets)

theorem mergeKeySelectors_single_combinators_witness:
  "mergeKeySelectors mergeNodes_dedup
     (ParsedSelector (CompoundSelector [''.a''] None (Some (''>'', CompoundSelector [''.b''] None None))))
     (ParsedSelector (CompoundSelector [''.c''] None (Some (''>'', CompoundSelector [''.b''] None None))))
   = Inr [ParsedSelector (CompoundSelector [''.a'', ''.c''] None (Some (''>'',
            CompoundSelector [''.b''] None None)))]"
  using mergeKeySelectors_single_combinators
    [of "''>''" "''>''" mergeNodes_dedup "[''.a'']" None "[''.b'']" None "[''.c'']" None "[''.b'']" None]
  by (simp add: addNode_def)

subsection \<open>The walk up the inheritance chain\<close>

lemma resolveSelector_after:
  "resolveSelector E p ods ov l cs s (fc, rs, a @ after)
   = map_sum id (addAfter after) (resolveSelector E p ods ov l cs s (fc, rs, a))"
  by (auto simp: resolveSelector_def addAfter_def Let_def split: sum.splits prod.splits)

lemma forEachResultSel_after:
  "forEachResultSel E p ods ov l cs ss (fc, rs, a @ after)
   = map_sum id (addAfter after) (forEachResultSel E p ods ov l cs ss (fc, rs, a))"
proof (induction ss arbitrary: fc rs a)
  case Nil
  show ?case by (simp add: addAfter_def)
next
  case (Cons s ss)
  show ?case
  proof (cases "resolveSelector E p ods ov l cs s (fc, rs, a)")
    case (Inl e)
    then show ?thesis by (simp add: resolveSelector_after)
  next
    case (Inr st)
    obtain fc' rs' a' where st: "st = (fc', rs', a')" by (cases st) auto
    show ?thesis
      using Inr st Cons.IH [of fc' rs' a'] by (simp add: resolveSelector_after addAfter_def)
  qed
qed

lemma forEachCurSel_after:
  "forEachCurSel E p ods ov l css res (fc, rs, a @ after)
   = map_sum id (addAfter after) (forEachCurSel E p ods ov l css res (fc, rs, a))"
proof (induction css arbitrary: res fc rs a)
  case Nil
  show ?case by (simp add: addAfter_def)
next
  case (Cons cs css)
  show ?case
  proof (cases "case pseudoelement (key cs) of Some pe \<Rightarrow> q_other res pe | None \<Rightarrow> Some (q_main res)")
    case None
    then show ?thesis using Cons.IH by simp
  next
    case (Some rs0)
    show ?thesis
    proof (cases rs0)
      case Nil
      then show ?thesis using Some Cons.IH by simp
    next
      case (Cons r rs1)
      show ?thesis
      proof (cases "forEachResultSel E p ods ov l cs (rev (r # rs1)) (fc, rs, a)")
        case (Inl e)
        then show ?thesis
          using Some Cons forEachResultSel_after [of E p ods ov l cs "rev (r # rs1)" fc rs a after]
          by (simp add: Let_def)
      next
        case (Inr st)
        obtain fc' rs' a' where st: "st = (fc', rs', a')" by (cases st) auto
        show ?thesis
          using Some Cons Inr st Cons.IH [of _ fc' rs' a']
            forEachResultSel_after [of E p ods ov l cs "rev (r # rs1)" fc rs a after]
          by (simp add: Let_def addAfter_def)
      qed
    qed
  qed
qed

lemma resolveConflictWith_after:
  "resolveConflictWith E r l sel p ods ov after
   = (case resolveConflictWith E r l sel p ods ov [] of
        Inl e \<Rightarrow> Inl e
      | Inr (fc, new) \<Rightarrow> Inr (fc, new @ after))"
  using forEachCurSel_after [of E p ods ov l "parseSelector E sel" _ noconflict "[]" "[]" after]
  by (auto simp: resolveConflictWith_def addAfter_def Let_def split: option.splits sum.splits)

lemma levelClass_after:
  "resolveConflictWith E r l sel p ods ov after = Inr (fc, after')
   \<Longrightarrow> levelClass E r sel p ods ov l = Some fc"
  using resolveConflictWith_after [of E r l sel p ods ov after]
  by (auto simp: levelClass_def split: sum.splits)

text \<open>
  C1, amended. When the walk returns, it has stopped at the first level of the chain
  whose classification is not \<open>noconflict\<close>, be it \<open>conflict\<close> or \<open>samevalues\<close>, and
  \<open>foundConflict\<close> is the classification of that level; when every level is classified
  \<open>noconflict\<close> it has reached the end of the chain. The walk goes on to the base of a
  level only when the level is classified \<open>noconflict\<close>.
\<close>

theorem walkChain_stops:
  "walkChain E r sel p ods ov (Some l0) noconflict after = Inr (last_other, fc, after')
   \<Longrightarrow> (case dropWhile (\<lambda>l. levelClass E r sel p ods ov l = Some noconflict) (chain l0) of
          [] \<Rightarrow> last_other = None \<and> fc = noconflict
        | l # ls \<Rightarrow> last_other = Some l \<and> fc \<noteq> noconflict \<and> levelClass E r sel p ods ov l = Some fc)"
proof (induction l0 arbitrary: after)
  case (BlockObject src blk b)
  let ?l = "BlockObject src blk b"
  from BlockObject.prems obtain f1 a1 where
    r1: "resolveConflictWith E r ?l sel p ods ov after = Inr (f1, a1)"
    by (auto split: sum.splits)
  have c1: "levelClass E r sel p ods ov ?l = Some f1"
    using r1 by (rule levelClass_after)
  show ?case
  proof (cases "f1 = noconflict")
    case False
    then show ?thesis using BlockObject.prems r1 c1 by simp
  next
    case True
    then have w: "walkChain E r sel p ods ov b noconflict a1 = Inr (last_other, fc, after')"
      using BlockObject.prems r1 by simp
    show ?thesis
    proof (cases b)
      case None
      then show ?thesis using w c1 True by simp
    next
      case (Some l1)
      then show ?thesis using w c1 True BlockObject.IH [of l1 a1] by simp
    qed
  qed
qed

lemmas example_defs =
  example_env_def base_block_def other_block_def third_block_def main_block_def child_block_def
  base_foo_def other_foo_def third_foo_def simpleSelector_def

lemmas resolve_defs =
  resolveConflictWith_def resolveSelector_def mergeKeySelectors_def sel_length_def
  splitSelector_def key_def concreteValues_def levelClass_def isResolution_def matchResolveHere_def addNode_def Let_def

text \<open>
  C1, as stated, fails. The rule \<open>.a { color: red; color: resolve('other.foo') }\<close> is
  resolved against \<open>other.foo\<close>, whose rule has the same value: the level is classified
  \<open>samevalues\<close> and the loop is left with \<open>other\<close> still at \<open>other.foo\<close>. Its base \<open>base.foo\<close>,
  which has a conflicting value and would give a new rule, is not visited.
\<close>

theorem walkChain_samevalues_counterexample:
  "walkChain example_env ''other.foo'' ''.a'' ''color'' [''red''] True (Some other_foo) noconflict []
     = Inr (Some other_foo, samevalues, [])
   \<and> chain other_foo = [other_foo, base_foo]
   \<and> resolveConflictWith example_env ''other.foo'' base_foo ''.a'' ''color'' [''red''] True []
     = Inr (conflict, [Rule ''.foo.a'' [Decl ''color'' ''blue'']])"
  by (simp add: example_defs resolve_defs)

theorem walkChain_stops_witness:
  "walkChain example_env ''third.foo'' ''.a'' ''color'' [''green''] True (Some third_foo) noconflict []
     = Inr (Some base_foo, conflict, [Rule ''.foo.a'' [Decl ''color'' ''blue'']])
   \<and> (case dropWhile (\<lambda>l. levelClass example_env ''third.foo'' ''.a'' ''color'' [''green''] True l
                          = Some noconflict) (chain third_foo) of
          [] \<Rightarrow> Some base_foo = None \<and> conflict = noconflict
        | l # ls \<Rightarrow> Some base_foo = Some l \<and> conflict \<noteq> noconflict
            \<and> levelClass example_env ''third.foo'' ''.a'' ''color'' [''green''] True l = Some conflict)"
proof -
  have w: "walkChain example_env ''third.foo'' ''.a'' ''color'' [''green''] True (Some third_foo) noconflict []
     = Inr (Some base_foo, conflict, [Rule ''.foo.a'' [Decl ''color'' ''blue'']])"
    by (simp add: example_defs resolve_defs)
  show ?thesis
    by (intro conjI w walkChain_stops [OF w])
qed

subsection \<open>One declaration\<close>

lemma scanDecls_no_concrete:
  "\<forall>ov \<in> snd ` set ds. isResolution ov
   \<Longrightarrow> \<exists>st'. scanDecls p v ds st = Inr st' \<and> foundOtherValue st' = foundOtherValue st"
proof (induction ds arbitrary: st)
  case Nil
  then show ?case by simp
next
  case (Cons d ds)
  obtain idx ov where d: "d = (idx, ov)" by (cases d) auto
  have m: "isResolution ov" using Cons.prems d by simp
  have r: "\<forall>ov \<in> snd ` set ds. isResolution ov" using Cons.prems by simp
  show ?case
  proof (cases "ov = v")
    case True
    from Cons.IH [OF r, of "st\<lparr>foundResolve := Some idx, isOverride := (foundOtherValue st \<noteq> None)\<rparr>"]
    show ?thesis using d m True by simp
  next
    case False
    from Cons.IH [OF r, of st] show ?thesis using d m False by simp
  qed
qed

text \<open>
  C5. A resolution of property \<open>p\<close> in a rule where every declaration of \<open>p\<close> is a
  resolution throws "Cannot resolve p without a concrete value.", whatever the lookup, the
  query and the other collaborators are: the error comes before any of them is used.
\<close>

theorem resolveDecl_without_concrete_value:
  assumes "i < length ns" and "ns ! i = Decl p v" and "isResolution v"
    and "\<forall>ov \<in> snd ` set (walkDecls p ns 0). isResolution ov"
  shows "resolveDecl E blk sel ns i after
         = Inl (InvalidBlockSyntax (''Cannot resolve '' @ p @ '' without a concrete value.''))"
proof -
  obtain st' where s: "scanDecls p v (walkDecls p ns 0) scan0 = Inr st'"
    and f: "foundOtherValue st' = None"
    using scanDecls_no_concrete [OF assms(4), of p v scan0] by (auto simp: scan0_def)
  obtain m where m: "matchResolve v = Some m" using assms(3) by (auto simp: isResolution_def)
  show ?thesis
    using assms(1,2) s f m by (simp add: resolveDecl_def noConcreteValue_def split: prod.splits)
qed

theorem resolveDecl_without_concrete_value_witness:
  "0 < length [Decl ''color'' ''resolve('other.foo')'']
   \<and> [Decl ''color'' ''resolve('other.foo')''] ! 0 = Decl ''color'' ''resolve('other.foo')''
   \<and> isResolution ''resolve('other.foo')''
   \<and> resolveDecl example_env main_block ''.a'' [Decl ''color'' ''resolve('other.foo')''] 0 []
      = Inl (InvalidBlockSyntax ''Cannot resolve color without a concrete value.'')"
proof -
  have m: "isResolution ''resolve('other.foo')''"
    by (simp add: isResolution_def matchResolveHere_def)
  have a: "\<forall>ov \<in> snd ` set (walkDecls ''color'' [Decl ''color'' ''resolve('other.foo')''] 0).
             isResolution ov"
    using m by simp
  show ?thesis
    using m resolveDecl_without_concrete_value
      [of 0 "[Decl ''color'' ''resolve('other.foo')'']" "''color''" "''resolve('other.foo')''",
       OF _ _ m a, of example_env main_block "''.a''" "[]"]
    by simp
qed

lemma isAncestorFrom_iff:
  "isAncestorFrom this b =
     (block_identifier this \<in> block_identifier ` set (case b of None \<Rightarrow> [] | Some x \<Rightarrow> x # ancestors x))"
  by (induction this b rule: isAncestorFrom.induct) (auto split: option.splits)

lemma isAncestor_iff:
  "isAncestor this (Some blk) = (block_identifier this \<in> block_identifier ` set (ancestors blk))"
  by (cases blk) (auto simp: isAncestorFrom_iff split: option.splits)


lemma noConcreteValue_distinct:
  "noConcreteValue p \<noteq> ownBlock" "noConcreteValue p \<noteq> ancestorBlock"
proof -
  have "rev (p @ '' without a concrete value.'') \<noteq> rev ''conflicts with your own block.''"
    by simp
  then show "noConcreteValue p \<noteq> ownBlock"
    by (auto simp: noConcreteValue_def ownBlock_def)
  have "rev (p @ '' without a concrete value.'') \<noteq> rev ''conflicts with ancestors of your own block.''"
    by simp
  then show "noConcreteValue p \<noteq> ancestorBlock"
    by (auto simp: noConcreteValue_def ancestorBlock_def)
qed

lemma mixedOrder_distinct: "mixedOrder p \<noteq> ownBlock" "mixedOrder p \<noteq> ancestorBlock"
  by (simp_all add: mixedOrder_def ownBlock_def ancestorBlock_def)

lemma scanDecls_error: "scanDecls p v ds st = Inl e \<Longrightarrow> e = mixedOrder p"
  by (induction p v ds st rule: scanDecls.induct) (auto split: if_splits)

lemma mergeContexts_error:
  "mergeContexts mn c1 b1 c2 b2 k = Inl e \<Longrightarrow> e \<noteq> ownBlock \<and> e \<noteq> ancestorBlock"
  by (induction mn c1 b1 c2 b2 k rule: mergeContexts.induct)
     (auto simp: ownBlock_def ancestorBlock_def split: if_splits)

lemma mergeKeySelectors_error:
  "mergeKeySelectors mn s1 s2 = Inl e \<Longrightarrow> e \<noteq> ownBlock \<and> e \<noteq> ancestorBlock"
  by (auto simp: mergeKeySelectors_def ownBlock_def ancestorBlock_def
           split: if_splits prod.splits sum.splits dest!: mergeContexts_error)

lemma resolveSelector_error:
  "resolveSelector E p ods ov l cs s st = Inl e \<Longrightarrow> e \<noteq> ownBlock \<and> e \<noteq> ancestorBlock"
  by (auto simp: resolveSelector_def Let_def
           split: prod.splits sum.splits if_splits dest!: mergeKeySelectors_error)

lemma forEachResultSel_error:
  "forEachResultSel E p ods ov l cs ss st = Inl e \<Longrightarrow> e \<noteq> ownBlock \<and> e \<noteq> ancestorBlock"
  by (induction ss arbitrary: st) (auto split: sum.splits dest!: resolveSelector_error)

lemma forEachCurSel_error:
  "forEachCurSel E p ods ov l css res st = Inl e \<Longrightarrow> e \<noteq> ownBlock \<and> e \<noteq> ancestorBlock"
proof (induction css arbitrary: res st)
  case Nil
  then show ?case by simp
next
  case (Cons cs css)
  then show ?case
    by (auto simp: Let_def split: option.splits list.splits sum.splits
             dest!: forEachResultSel_error)
qed

lemma resolveConflictWith_error:
  "resolveConflictWith E r l sel p ods ov after = Inl e \<Longrightarrow> e \<noteq> ownBlock \<and> e \<noteq> ancestorBlock"
  by (auto simp: resolveConflictWith_def Let_def ownBlock_def ancestorBlock_def
           split: option.splits sum.splits dest!: forEachCurSel_error)

lemma walkChain_error:
  "walkChain E r sel p ods ov l fc after = Inl e \<Longrightarrow> e \<noteq> ownBlock \<and> e \<noteq> ancestorBlock"
proof (induction E r sel p ods ov l fc after rule: walkChain.induct)
  case (1 E referenceStr sel p ods override foundConflict after)
  then show ?case by simp
next
  case (2 E referenceStr sel p ods override src blk b foundConflict after)
  show ?case
  proof (cases "resolveConflictWith E referenceStr (BlockObject src blk b) sel p ods override after")
    case (Inl e')
    then show ?thesis using 2 resolveConflictWith_error [OF Inl] by (auto split: if_splits)
  next
    case (Inr x)
    obtain f' a' where x: "x = (f', a')" by (cases x) auto
    show ?thesis using 2 Inr x by (auto split: if_splits)
  qed
qed

text \<open>
  C3. For a resolution whose reference is found: when the block of the target has the
  identifier of the current block, the callback throws a syntax error (the one of the
  scan, the one for a missing value, or "Cannot resolve conflicts with your own block.");
  when the resolution is not \<open>resolve-inherited\<close> and the block of the target is reached
  from the current block by following \<open>base\<close> one or more times, it throws a syntax
  error (one of these, or "Cannot resolve conflicts with ancestors of your own block.");
  for a \<open>resolve-inherited\<close> whose target is in the direct base of the current block, a
  block with another identifier, neither of the two errors is the outcome.
\<close>

theorem resolveDecl_own_or_ancestor_block:
  assumes "i < length ns" and "ns ! i = Decl p v"
    and "matchResolve v = Some (inherited, referenceStr)"
    and "lookup E blk referenceStr = Some target"
  shows "(block_identifier (obj_block target) = block_identifier blk \<longrightarrow>
            resolveDecl E blk sel ns i after \<in> {Inl (mixedOrder p), Inl (noConcreteValue p), Inl ownBlock})
       \<and> (\<not> inherited \<and> block_identifier (obj_block target) \<in> block_identifier ` set (ancestors blk) \<longrightarrow>
            resolveDecl E blk sel ns i after
              \<in> {Inl (mixedOrder p), Inl (noConcreteValue p), Inl ownBlock, Inl ancestorBlock})
       \<and> (inherited \<and> base blk = Some (obj_block target)
            \<and> block_identifier (obj_block target) \<noteq> block_identifier blk \<longrightarrow>
            resolveDecl E blk sel ns i after \<notin> {Inl ownBlock, Inl ancestorBlock})"
proof (intro conjI impI)
  assume own: "block_identifier (obj_block target) = block_identifier blk"
  show "resolveDecl E blk sel ns i after \<in> {Inl (mixedOrder p), Inl (noConcreteValue p), Inl ownBlock}"
    using assms own
    by (auto simp: resolveDecl_def split: sum.splits dest: scanDecls_error)
next
  assume anc: "\<not> inherited \<and> block_identifier (obj_block target) \<in> block_identifier ` set (ancestors blk)"
  then have "isAncestor (obj_block target) (Some blk)"
    by (simp only: isAncestor_iff)
  then show "resolveDecl E blk sel ns i after
      \<in> {Inl (mixedOrder p), Inl (noConcreteValue p), Inl ownBlock, Inl ancestorBlock}"
    using assms anc
    by (auto simp: resolveDecl_def split: sum.splits dest: scanDecls_error)
next
  assume inh: "inherited \<and> base blk = Some (obj_block target)
      \<and> block_identifier (obj_block target) \<noteq> block_identifier blk"
  show "resolveDecl E blk sel ns i after \<notin> {Inl ownBlock, Inl ancestorBlock}"
    using assms inh noConcreteValue_distinct [of p] mixedOrder_distinct [of p]
    by (auto simp: resolveDecl_def split: sum.splits if_splits prod.splits
             dest!: scanDecls_error walkChain_error)
qed

theorem resolveDecl_own_or_ancestor_block_witness:
  "lookup example_env child_block ''.bar'' = Some (BlockObject ''.bar'' child_block None)
   \<and> resolveDecl example_env child_block ''.a''
         [Decl ''color'' ''red'', Decl ''color'' ''resolve('.bar')''] 1 []
       \<in> {Inl (mixedOrder ''color''), Inl (noConcreteValue ''color''), Inl ownBlock}
   \<and> resolveDecl example_env child_block ''.a''
         [Decl ''color'' ''red'', Decl ''color'' ''resolve('.bar')''] 1 []
       = Inl (InvalidBlockSyntax ''Cannot resolve conflicts with your own block.'')
   \<and> block_identifier (obj_block base_foo) \<in> block_identifier ` set (ancestors child_block)
   \<and> resolveDecl example_env child_block ''.a''
         [Decl ''color'' ''red'', Decl ''color'' ''resolve('base.foo')''] 1 []
       \<in> {Inl (mixedOrder ''color''), Inl (noConcreteValue ''color''), Inl ownBlock, Inl ancestorBlock}
   \<and> resolveDecl example_env child_block ''.a''
         [Decl ''color'' ''red'', Decl ''color'' ''resolve('base.foo')''] 1 []
       = Inl (InvalidBlockSyntax ''Cannot resolve conflicts with ancestors of your own block.'')
   \<and> base child_block = Some (obj_block base_foo)
   \<and> block_identifier (obj_block base_foo) \<noteq> block_identifier child_block
   \<and> resolveDecl example_env child_block ''.a''
         [Decl ''color'' ''resolve-inherited('base.foo')'', Decl ''color'' ''red''] 0 []
       \<notin> {Inl ownBlock, Inl ancestorBlock}
   \<and> resolveDecl example_env child_block ''.a''
         [Decl ''color'' ''resolve-inherited('base.foo')'', Decl ''color'' ''red''] 0 []
       = Inr ([Decl ''color'' ''red''], [Rule ''.foo.a'' [Decl ''color'' ''red'']])"
proof -
  have l1: "lookup example_env child_block ''.bar'' = Some (BlockObject ''.bar'' child_block None)"
    by (simp add: example_env_def)
  have l2: "lookup example_env child_block ''base.foo'' = Some base_foo"
    by (simp add: example_env_def)
  have m1: "matchResolve ''resolve('.bar')'' = Some (False, ''.bar'')"
    by (simp add: matchResolveHere_def)
  have m2: "matchResolve ''resolve('base.foo')'' = Some (False, ''base.foo'')"
    by (simp add: matchResolveHere_def)
  have m3: "matchResolve ''resolve-inherited('base.foo')'' = Some (True, ''base.foo'')"
    by (simp add: matchResolveHere_def)
  have a: "block_identifier (obj_block base_foo) \<in> block_identifier ` set (ancestors child_block)"
    "base child_block = Some (obj_block base_foo)"
    "block_identifier (obj_block base_foo) \<noteq> block_identifier child_block"
    by (simp_all add: example_defs)
  have own: "resolveDecl example_env child_block ''.a''
         [Decl ''color'' ''red'', Decl ''color'' ''resolve('.bar')''] 1 []
       \<in> {Inl (mixedOrder ''color''), Inl (noConcreteValue ''color''), Inl ownBlock}"
    using resolveDecl_own_or_ancestor_block
      [of 1 "[Decl ''color'' ''red'', Decl ''color'' ''resolve('.bar')'']" "''color''"
          "''resolve('.bar')''" False "''.bar''" example_env child_block
          "BlockObject ''.bar'' child_block None" "''.a''" "[]", OF _ _ m1 l1]
    by simp
  have anc: "resolveDecl example_env child_block ''.a''
         [Decl ''color'' ''red'', Decl ''color'' ''resolve('base.foo')''] 1 []
       \<in> {Inl (mixedOrder ''color''), Inl (noConcreteValue ''color''), Inl ownBlock, Inl ancestorBlock}"
    using resolveDecl_own_or_ancestor_block
      [of 1 "[Decl ''color'' ''red'', Decl ''color'' ''resolve('base.foo')'']" "''color''"
          "''resolve('base.foo')''" False "''base.foo''" example_env child_block
          base_foo "''.a''" "[]", OF _ _ m2 l2] a
    by simp
  have inh: "resolveDecl example_env child_block ''.a''
         [Decl ''color'' ''resolve-inherited('base.foo')'', Decl ''color'' ''red''] 0 []
       \<notin> {Inl ownBlock, Inl ancestorBlock}"
    using resolveDecl_own_or_ancestor_block
      [of 0 "[Decl ''color'' ''resolve-inherited('base.foo')'', Decl ''color'' ''red'']" "''color''"
          "''resolve-inherited('base.foo')''" True "''base.foo''" example_env child_block
          base_foo "''.a''" "[]", OF _ _ m3 l2] a
    by simp
  have v1: "resolveDecl example_env child_block ''.a''
         [Decl ''color'' ''red'', Decl ''color'' ''resolve('.bar')''] 1 []
       = Inl (InvalidBlockSyntax ''Cannot resolve conflicts with your own block.'')"
    by (simp add: resolveDecl_def scan0_def ownBlock_def example_defs resolve_defs)
  have v2: "resolveDecl example_env child_block ''.a''
         [Decl ''color'' ''red'', Decl ''color'' ''resolve('base.foo')''] 1 []
       = Inl (InvalidBlockSyntax ''Cannot resolve conflicts with ancestors of your own block.'')"
    by (simp add: resolveDecl_def scan0_def ancestorBlock_def example_defs resolve_defs)
  have v3: "resolveDecl example_env child_block ''.a''
         [Decl ''color'' ''resolve-inherited('base.foo')'', Decl ''color'' ''red''] 0 []
       = Inr ([Decl ''color'' ''red''], [Rule ''.foo.a'' [Decl ''color'' ''red'']])"
    by (simp add: resolveDecl_def scan0_def removeAt_def example_defs resolve_defs)
  show ?thesis
    by (intro conjI l1 own v1 a anc v2 inh v3)
qed

subsection \<open>Override or underride\<close>

lemma walkDecls_append:
  "walkDecls p (xs @ ys) k = walkDecls p xs k @ walkDecls p ys (k + length xs)"
  by (induction p xs k rule: walkDecls.induct) auto

lemma scanDecls_append:
  "scanDecls p v (a @ b) st =
     (case scanDecls p v a st of Inl e \<Rightarrow> Inl e | Inr st' \<Rightarrow> scanDecls p v b st')"
  by (induction p v a st rule: scanDecls.induct) auto

lemma walkDecls_flat_entries:
  "flat ns \<Longrightarrow> (j, w) \<in> set (walkDecls p ns k)
   \<Longrightarrow> k \<le> j \<and> j < k + length ns \<and> Decl p w \<in> set ns"
  by (induction ns arbitrary: k rule: flat.induct) (fastforce split: if_splits)+

lemma walkDecls_flat_values:
  "flat ns \<Longrightarrow> Decl p w \<in> set ns \<Longrightarrow> w \<in> snd ` set (walkDecls p ns k)"
  by (induction ns arbitrary: k rule: flat.induct) (auto split: if_splits)

lemma scanDecls_before_resolve:
  assumes "\<forall>(j, w) \<in> set ds. w \<noteq> v \<and> j < i"
    and "foundResolve st = None"
    and "\<forall>fv. foundOtherValue st = Some fv \<longrightarrow> fv < i"
  shows "\<exists>st'. scanDecls p v ds st = Inr st' \<and> foundResolve st' = None
           \<and> isOverride st' = isOverride st
           \<and> (foundOtherValue st' = None \<longleftrightarrow>
                foundOtherValue st = None \<and> (\<forall>w \<in> snd ` set ds. isResolution w))
           \<and> (\<forall>fv. foundOtherValue st' = Some fv \<longrightarrow> fv < i)"
  using assms
proof (induction ds arbitrary: st)
  case Nil
  then show ?case by simp
next
  case (Cons d ds)
  obtain j w where d: "d = (j, w)" by (cases d) auto
  have jw: "w \<noteq> v" "j < i" using Cons.prems(1) d by auto
  have rest: "\<forall>(j, w) \<in> set ds. w \<noteq> v \<and> j < i" using Cons.prems(1) by simp
  show ?case
  proof (cases "\<not> isResolution w")
    case False
    then show ?thesis
      using Cons.IH [OF rest Cons.prems(2,3)] d jw by auto
  next
    case True
    let ?st = "st\<lparr>foundOtherValue := Some j, otherDecls := otherDecls st @ [w]\<rparr>"
    have "\<exists>st'. scanDecls p v ds ?st = Inr st' \<and> foundResolve st' = None
           \<and> isOverride st' = isOverride ?st
           \<and> (foundOtherValue st' = None \<longleftrightarrow>
                foundOtherValue ?st = None \<and> (\<forall>w \<in> snd ` set ds. isResolution w))
           \<and> (\<forall>fv. foundOtherValue st' = Some fv \<longrightarrow> fv < i)"
      using Cons.prems(2) jw by (intro Cons.IH [OF rest]) auto
    then show ?thesis
      using d True Cons.prems(2) by (auto split: option.splits)
  qed
qed

lemma scanDecls_mixed:
  assumes "\<forall>(j, w) \<in> set ds. w \<noteq> v"
    and "foundOtherValue st = Some fv" and "foundResolve st = Some fr" and "fv < fr"
    and "\<exists>w \<in> snd ` set ds. \<not> isResolution w"
  shows "scanDecls p v ds st = Inl (mixedOrder p)"
  using assms
proof (induction ds)
  case Nil
  then show ?case by simp
next
  case (Cons d ds)
  obtain j w where d: "d = (j, w)" by (cases d) auto
  show ?case
  proof (cases "\<not> isResolution w")
    case True
    then show ?thesis using d Cons.prems by simp
  next
    case False
    then show ?thesis using d Cons by auto
  qed
qed

lemma scanDecls_after_resolve:
  assumes "\<forall>(j, w) \<in> set ds. w \<noteq> v \<and> i < j"
    and "foundResolve st = Some i"
    and "\<forall>fv. foundOtherValue st = Some fv \<longrightarrow> i < fv"
  shows "\<exists>st'. scanDecls p v ds st = Inr st' \<and> isOverride st' = isOverride st"
  using assms
proof (induction ds arbitrary: st)
  case Nil
  then show ?case by simp
next
  case (Cons d ds)
  obtain j w where d: "d = (j, w)" by (cases d) auto
  have jw: "w \<noteq> v" "i < j" using Cons.prems(1) d by auto
  have rest: "\<forall>(j, w) \<in> set ds. w \<noteq> v \<and> i < j" using Cons.prems(1) by simp
  show ?case
  proof (cases "\<not> isResolution w")
    case False
    then show ?thesis using Cons.IH [OF rest Cons.prems(2,3)] d jw by auto
  next
    case True
    let ?st = "st\<lparr>foundOtherValue := Some j, otherDecls := otherDecls st @ [w]\<rparr>"
    have "\<exists>st'. scanDecls p v ds ?st = Inr st' \<and> isOverride st' = isOverride ?st"
      using Cons.prems(2) jw by (intro Cons.IH [OF rest]) auto
    moreover have "\<not> (case (foundOtherValue st, foundResolve st) of
                         (Some fv, Some fr) \<Rightarrow> fv < fr | _ \<Rightarrow> False)"
      using Cons.prems(2,3) by (auto split: option.splits)
    ultimately show ?thesis using d True by simp
  qed
qed

lemma scanDecls_only_other_resolutions:
  "\<forall>(j, w) \<in> set ds. w \<noteq> v \<and> isResolution w \<Longrightarrow> scanDecls p v ds st = Inr st"
  by (induction ds) auto

text \<open>
  The scan on a rule of declarations and comments, for a resolution whose text occurs
  once among the declarations of its property: it throws exactly when values that are not
  resolutions stand both before and after the resolution, and otherwise \<open>isOverride\<close>
  says whether one stands before it.
\<close>

lemma scanDecls_unique_resolution:
  assumes fl: "flat pre" "flat post"
    and m: "isResolution v"
    and u: "Decl p v \<notin> set pre" "Decl p v \<notin> set post"
  shows "if (\<exists>w. Decl p w \<in> set pre \<and> \<not> isResolution w)
            \<and> (\<exists>w. Decl p w \<in> set post \<and> \<not> isResolution w)
         then scanDecls p v (walkDecls p (pre @ Decl p v # post) 0) scan0 = Inl (mixedOrder p)
         else \<exists>st. scanDecls p v (walkDecls p (pre @ Decl p v # post) 0) scan0 = Inr st
                \<and> isOverride st = (\<exists>w. Decl p w \<in> set pre \<and> \<not> isResolution w)"
proof -
  let ?i = "length pre"
  let ?a = "walkDecls p pre 0"
  let ?b = "walkDecls p post (Suc ?i)"
  let ?before = "\<exists>w. Decl p w \<in> set pre \<and> \<not> isResolution w"
  let ?after = "\<exists>w. Decl p w \<in> set post \<and> \<not> isResolution w"
  have w: "walkDecls p (pre @ Decl p v # post) 0 = ?a @ (?i, v) # ?b"
    by (simp add: walkDecls_append)
  have pa: "\<forall>(j, w) \<in> set ?a. w \<noteq> v \<and> j < ?i"
    using walkDecls_flat_entries [OF fl(1), of _ _ p 0] u(1) by fastforce
  have pb: "\<forall>(j, w) \<in> set ?b. w \<noteq> v \<and> ?i < j"
    using walkDecls_flat_entries [OF fl(2), of _ _ p "Suc ?i"] u(2) by fastforce
  have va: "(\<forall>w \<in> snd ` set ?a. isResolution w) \<longleftrightarrow> \<not> ?before"
    using walkDecls_flat_entries [OF fl(1), of _ _ p 0] walkDecls_flat_values [OF fl(1), of p _ 0]
    by fastforce
  have vb: "(\<exists>w \<in> snd ` set ?b. \<not> isResolution w) \<longleftrightarrow> ?after"
    using walkDecls_flat_entries [OF fl(2), of _ _ p "Suc ?i"]
      walkDecls_flat_values [OF fl(2), of p _ "Suc ?i"]
    by fastforce
  have f0: "foundOtherValue scan0 = None" by (simp add: scan0_def)
  have "\<exists>st'. scanDecls p v ?a scan0 = Inr st' \<and> foundResolve st' = None
           \<and> isOverride st' = isOverride scan0
           \<and> (foundOtherValue st' = None \<longleftrightarrow>
                foundOtherValue scan0 = None \<and> (\<forall>w \<in> snd ` set ?a. isResolution w))
           \<and> (\<forall>fv. foundOtherValue st' = Some fv \<longrightarrow> fv < ?i)"
    by (rule scanDecls_before_resolve [OF pa]) (simp_all add: scan0_def)
  then obtain st1 where s1: "scanDecls p v ?a scan0 = Inr st1"
    and r1: "foundResolve st1 = None"
    and o1: "foundOtherValue st1 = None \<longleftrightarrow> \<not> ?before"
    and b1: "\<forall>fv. foundOtherValue st1 = Some fv \<longrightarrow> fv < ?i"
    unfolding f0 va simp_thms by (elim exE conjE) (rule that)
  let ?st2 = "st1\<lparr>foundResolve := Some ?i, isOverride := (foundOtherValue st1 \<noteq> None)\<rparr>"
  have s2: "scanDecls p v (?a @ (?i, v) # ?b) scan0 = scanDecls p v ?b ?st2"
    using s1 m by (simp add: scanDecls_append)
  show ?thesis
  proof (cases "?before \<and> ?after")
    case True
    then obtain fv where fv: "foundOtherValue st1 = Some fv" using o1 by auto
    have "scanDecls p v ?b ?st2 = Inl (mixedOrder p)"
    proof (rule scanDecls_mixed [where fv = fv and fr = ?i])
      show "\<forall>(j, w) \<in> set ?b. w \<noteq> v" using pb by auto
      show "foundOtherValue ?st2 = Some fv" using fv by simp
      show "foundResolve ?st2 = Some ?i" by simp
      show "fv < ?i" using b1 fv by simp
      show "\<exists>w \<in> snd ` set ?b. \<not> isResolution w" using vb True by simp
    qed
    then show ?thesis using True w s2 by simp
  next
    case False
    have ex: "\<exists>st. scanDecls p v ?b ?st2 = Inr st \<and> isOverride st = isOverride ?st2"
    proof (cases ?before)
      case True
      then have "\<not> ?after" using False by simp
      then have "\<forall>(j, w) \<in> set ?b. w \<noteq> v \<and> isResolution w"
        using pb vb by fastforce
      then show ?thesis using scanDecls_only_other_resolutions [of ?b v p ?st2] by simp
    next
      case nb: False
      then have "foundOtherValue st1 = None" using o1 by simp
      then show ?thesis
        using scanDecls_after_resolve [OF pb, of ?st2 p] by simp
    qed
    from ex obtain st where a: "scanDecls p v ?b ?st2 = Inr st"
      and b: "isOverride st = isOverride ?st2"
      by (elim exE conjE)
    have c: "isOverride st = ?before" unfolding b by (auto simp: o1)
    have "\<exists>st. scanDecls p v (walkDecls p (pre @ Decl p v # post) 0) scan0 = Inr st
            \<and> isOverride st = ?before"
      unfolding w s2 using a c by (intro exI conjI)
    then show ?thesis by (simp only: if_not_P [OF False])
  qed
qed

text \<open>
  C2 fails on the code. The scan takes every declaration with the text of the resolution
  for the resolution itself (\<open>otherDecl.value !== decl.value\<close>). In
  \<open>.a { color: resolve('other.foo'); color: green; color: resolve('other.foo') }\<close> no value
  stands before the first declaration, yet the scan ends with \<open>isOverride\<close> true, set at
  the third one, and the new rule gets the value of \<open>other.foo\<close>. Without the third
  declaration the first is an underride, and the new rule gets the value of the rule.
\<close>

theorem scanDecls_repeated_resolution:
  "scanDecls ''color'' ''resolve('other.foo')''
     (walkDecls ''color''
        [Decl ''color'' ''resolve('other.foo')'', Decl ''color'' ''green'',
         Decl ''color'' ''resolve('other.foo')''] 0) scan0
     = Inr \<lparr>isOverride = True, foundOtherValue = Some 1, foundResolve = Some 2,
            otherDecls = [''green'']\<rparr>
   \<and> resolveDecl example_env main_block ''.a''
        [Decl ''color'' ''resolve('other.foo')'', Decl ''color'' ''green'',
         Decl ''color'' ''resolve('other.foo')''] 0 []
     = Inr ([Decl ''color'' ''green'', Decl ''color'' ''resolve('other.foo')''],
            [Rule ''.foo.a'' [Decl ''color'' ''red'']])
   \<and> resolveDecl example_env main_block ''.a''
        [Decl ''color'' ''resolve('other.foo')'', Decl ''color'' ''green''] 0 []
     = Inr ([Decl ''color'' ''green''], [Rule ''.foo.a'' [Decl ''color'' ''green'']])"
  by (simp add: resolveDecl_def scan0_def removeAt_def example_defs resolve_defs)

subsection \<open>Inheritance\<close>

text \<open>
  A block with a base: \<open>other.css\<close> extends \<open>base.css\<close>, and its rule for \<open>.foo\<close> gets the
  declaration \<open>color: resolve-inherited("base.foo")\<close> in front.
\<close>

lemma resolveInheritance_example:
  "resolveInheritance example_env
     [Rule ''.foo'' [Decl ''color'' ''red''], Rule ''.bar'' [Decl ''color'' ''red'']] other_block
   = [Rule ''.foo'' [Decl ''color'' (''resolve-inherited('' @ [CHR 0x22] @ ''base.foo'' @ [CHR 0x22] @ '')''),
                     Decl ''color'' ''red''],
      Rule ''.bar'' [Decl ''color'' ''red'']]"
  by (simp add: resolveInheritance_def injectRule_def injectForSelector_def injectProp_def
        key_def example_defs Let_def)

text \<open>
  C10. For a block whose base or base name is unset (or whose base name is the empty
  string), \<open>resolveInheritance\<close> returns the
  tree as it was given: the walk over the rules does not start.
\<close>

theorem resolveInheritance_without_base:
  "base blk = None \<or> baseName blk = None \<or> baseName blk = Some [] \<Longrightarrow> resolveInheritance E rt blk = rt"
  by (auto simp: resolveInheritance_def split: option.splits)

theorem resolveInheritance_without_base_witness:
  "(base main_block = None \<or> baseName main_block = None \<or> baseName main_block = Some [])
   \<and> resolveInheritance example_env
        [Rule ''.foo'' [Decl ''color'' ''red''], Rule ''.bar'' [Decl ''color'' ''red'']] main_block
      = [Rule ''.foo'' [Decl ''color'' ''red''], Rule ''.bar'' [Decl ''color'' ''red'']]"
proof -
  have b: "base main_block = None \<or> baseName main_block = None \<or> baseName main_block = Some []"
    by (simp add: main_block_def)
  show ?thesis
    using b resolveInheritance_without_base [OF b] by blast
qed

subsection \<open>Resolved styles\<close>

lemma walkBases_chain:
  "base_chain h b xs \<Longrightarrow> walkBases h b acc = Some (acc @ xs)"
proof (induction arbitrary: acc rule: base_chain.induct)
  case (chain_end h)
  show ?case by (subst walkBases.simps) simp
next
  case (chain_step h a xs)
  show ?case by (subst walkBases.simps) (simp add: chain_step.IH)
qed

lemma set_fold_set_add: "set (fold set_add xs ys) = set xs \<union> set ys"
  by (induction xs arbitrary: ys) (auto simp: set_add_def)

lemma loopInherited_none: "loopInherited rec c ss h = Some h"
  by (induction ss) (simp_all add: impliedStyles_def)

lemma resolveStylesBody_fresh:
  assumes "resolvedStyles_cache (styles h s) = None"
    and "base_chain h (style_base (styles h s)) xs"
  shows "resolveStylesBody rec h s =
     Some (Suc (next_set h),
           h\<lparr>styles := (styles h)(s := (styles h s)\<lparr>resolvedStyles_cache := Some (next_set h)\<rparr>),
             sets := (sets h)(next_set h := set_add s (fold set_add xs []),
                              Suc (next_set h) := fold set_add (set_add s (fold set_add xs [])) []),
             next_set := Suc (Suc (next_set h))\<rparr>)"
  using assms walkBases_chain [OF assms(2), of "[]"]
  by (simp add: resolveStylesBody_def newSet_def loopInherited_none Let_def)


lemma base_chain_reachable:
  "base_chain h b xs \<Longrightarrow> set xs = {a. \<exists>x. b = Some x \<and> (x, a) \<in> (baseRel h)\<^sup>*}"
proof (induction rule: base_chain.induct)
  case (chain_end h)
  show ?case by simp
next
  case (chain_step h a xs)
  show ?case
  proof (intro set_eqI iffI)
    fix y assume "y \<in> set (a # xs)"
    then consider "y = a" | "y \<in> set xs" by auto
    then show "y \<in> {y. \<exists>x. Some a = Some x \<and> (x, y) \<in> (baseRel h)\<^sup>*}"
    proof cases
      case 1
      then show ?thesis by simp
    next
      case 2
      then obtain x where x: "style_base (styles h a) = Some x" "(x, y) \<in> (baseRel h)\<^sup>*"
        using chain_step.IH by auto
      have "(a, x) \<in> baseRel h" using x(1) by (simp add: baseRel_def)
      then show ?thesis using x(2) by (auto intro: converse_rtrancl_into_rtrancl)
    qed
  next
    fix y assume "y \<in> {y. \<exists>x. Some a = Some x \<and> (x, y) \<in> (baseRel h)\<^sup>*}"
    then have r: "(a, y) \<in> (baseRel h)\<^sup>*" by simp
    show "y \<in> set (a # xs)"
      using r
    proof (cases rule: converse_rtranclE)
      case base
      then show ?thesis by simp
    next
      case (step z)
      then have "style_base (styles h a) = Some z" by (simp add: baseRel_def)
      then have "y \<in> set xs" using chain_step.IH step(2) by auto
      then show ?thesis by simp
    qed
  qed
qed

lemma base_chain_closure:
  assumes "base_chain h (style_base (styles h s)) xs"
  shows "insert s (set xs) = {a. (s, a) \<in> (baseRel h)\<^sup>*}"
  using base_chain_reachable [OF chain_step [OF assms]] by simp

text \<open>A call when the cache is set: a copy of the cached set at a new address.\<close>

lemma resolveStyles_cached:
  "resolvedStyles_cache (styles h s) = Some c
   \<Longrightarrow> resolveStyles n h s =
         Some (next_set h,
               h\<lparr>sets := (sets h)(next_set h := fold set_add (sets h c) []),
                 next_set := Suc (next_set h)\<rparr>)"
  by (cases n) (simp_all add: resolveStylesBody_def newSet_def)

lemma resolveStyles_fresh:
  assumes "resolvedStyles_cache (styles h s) = None"
    and "base_chain h (style_base (styles h s)) xs"
  shows "resolveStyles n h s =
     Some (Suc (next_set h),
           h\<lparr>styles := (styles h)(s := (styles h s)\<lparr>resolvedStyles_cache := Some (next_set h)\<rparr>),
             sets := (sets h)(next_set h := set_add s (fold set_add xs []),
                              Suc (next_set h) := fold set_add (set_add s (fold set_add xs [])) []),
             next_set := Suc (Suc (next_set h))\<rparr>)"
  by (cases n) (simp_all add: resolveStylesBody_fresh [OF assms])

lemma later_cached:
  assumes "resolvedStyles_cache (styles h s) = Some c"
    and "c < next_set h"
    and "\<forall>a \<in> set returned. a < next_set h \<and> a \<noteq> c"
    and "distinct returned"
  shows "\<exists>results. later s h returned acts = Some results
           \<and> length results = calls acts
           \<and> (\<forall>(r, ys) \<in> set results. ys = fold set_add (sets h c) [] \<and> r \<noteq> c \<and> r \<notin> set returned)
           \<and> distinct (map fst results)"
  using assms
proof (induction acts arbitrary: h returned)
  case Nil
  show ?case by simp
next
  case (Cons act acts)
  show ?case
  proof (cases act)
    case (CallResolveStyles fuel)
    let ?r = "next_set h"
    let ?h = "h\<lparr>sets := (sets h)(?r := fold set_add (sets h c) []), next_set := Suc ?r\<rparr>"
    have call: "resolveStyles fuel h s = Some (?r, ?h)"
      by (rule resolveStyles_cached [OF Cons.prems(1)])
    have rc: "?r \<noteq> c" using Cons.prems(2) by simp
    have rn: "?r \<notin> set returned" using Cons.prems(3) by auto
    have "\<exists>results. later s ?h (returned @ [?r]) acts = Some results
           \<and> length results = calls acts
           \<and> (\<forall>(r, ys) \<in> set results. ys = fold set_add (sets ?h c) [] \<and> r \<noteq> c
                  \<and> r \<notin> set (returned @ [?r]))
           \<and> distinct (map fst results)"
    proof (rule Cons.IH)
      show "resolvedStyles_cache (styles ?h s) = Some c" using Cons.prems(1) by simp
      show "c < next_set ?h" using Cons.prems(2) by simp
      show "\<forall>a \<in> set (returned @ [?r]). a < next_set ?h \<and> a \<noteq> c"
        using Cons.prems(2,3) by auto
      show "distinct (returned @ [?r])" using Cons.prems(4) rn by simp
    qed
    then obtain results where res: "later s ?h (returned @ [?r]) acts = Some results"
      "length results = calls acts"
      "\<forall>(r, ys) \<in> set results. ys = fold set_add (sets ?h c) [] \<and> r \<noteq> c
                  \<and> r \<notin> set (returned @ [?r])"
      "distinct (map fst results)"
      by blast
    have same: "sets ?h c = sets h c" using rc by simp
    have "later s h returned (act # acts) = Some ((?r, fold set_add (sets h c) []) # results)"
      using CallResolveStyles call res(1) by simp
    moreover have "\<forall>(r, ys) \<in> set ((?r, fold set_add (sets h c) []) # results).
        ys = fold set_add (sets h c) [] \<and> r \<noteq> c \<and> r \<notin> set returned"
      using res(3) rc rn unfolding same by auto
    moreover have "distinct (map fst ((?r, fold set_add (sets h c) []) # results))"
      using res(3,4) by force
    ultimately show ?thesis using res(2) CallResolveStyles by simp
  next
    case (OverwriteReturned k ys)
    let ?h = "if k < length returned then h\<lparr>sets := (sets h)(returned ! k := ys)\<rparr> else h"
    have kc: "k < length returned \<Longrightarrow> returned ! k \<noteq> c"
      using Cons.prems(3) by (auto dest: nth_mem)
    have same: "sets ?h c = sets h c" using kc by auto
    have "\<exists>results. later s ?h returned acts = Some results
           \<and> length results = calls acts
           \<and> (\<forall>(r, ys) \<in> set results. ys = fold set_add (sets ?h c) [] \<and> r \<noteq> c \<and> r \<notin> set returned)
           \<and> distinct (map fst results)"
    proof (rule Cons.IH)
      show "resolvedStyles_cache (styles ?h s) = Some c" using Cons.prems(1) by simp
      show "c < next_set ?h" using Cons.prems(2) by simp
      show "\<forall>a \<in> set returned. a < next_set ?h \<and> a \<noteq> c" using Cons.prems(3) by simp
      show "distinct returned" by (rule Cons.prems(4))
    qed
    then show ?thesis unfolding same using OverwriteReturned by simp
  next
    case (ChangeBase t b)
    let ?h = "h\<lparr>styles := (styles h)(t := (styles h t)\<lparr>style_base := b\<rparr>)\<rparr>"
    have "\<exists>results. later s ?h returned acts = Some results
           \<and> length results = calls acts
           \<and> (\<forall>(r, ys) \<in> set results. ys = fold set_add (sets ?h c) [] \<and> r \<noteq> c \<and> r \<notin> set returned)
           \<and> distinct (map fst results)"
    proof (rule Cons.IH)
      show "resolvedStyles_cache (styles ?h s) = Some c" using Cons.prems(1) by auto
      show "c < next_set ?h" using Cons.prems(2) by simp
      show "\<forall>a \<in> set returned. a < next_set ?h \<and> a \<noteq> c" using Cons.prems(3) by simp
      show "distinct returned" by (rule Cons.prems(4))
    qed
    then show ?thesis using ChangeBase by simp
  qed
qed

text \<open>
  C9. For a style object whose cache is not set and whose chain of base pointers ends,
  \<open>resolveStyles\<close> returns, with any fuel, a set whose elements are the object itself and
  everything reached from it along base pointers (implied styles add nothing, there are
  none). The cache of the object is then set, to a set object other than the one
  returned, with the same elements. After that, whatever the caller does in whatever
  order (further calls, overwriting any of the sets returned so far, changing base
  pointers), every further call returns, and returns a set object that is neither the
  cache nor any set returned before, with the contents the first call returned.
\<close>

theorem resolveStyles_closure_memoized_copy:
  assumes "resolvedStyles_cache (styles h s) = None"
    and "base_chain h (style_base (styles h s)) xs"
  shows "\<exists>r c h1.
      resolveStyles n h s = Some (r, h1)
    \<and> set (sets h1 r) = {a. (s, a) \<in> (baseRel h)\<^sup>*}
    \<and> resolvedStyles_cache (styles h1 s) = Some c \<and> c \<noteq> r
    \<and> set (sets h1 c) = {a. (s, a) \<in> (baseRel h)\<^sup>*}
    \<and> (\<forall>acts. \<exists>results.
          later s h1 [r] acts = Some results
        \<and> length results = calls acts
        \<and> (\<forall>(r2, ys) \<in> set results. ys = sets h1 r \<and> r2 \<noteq> r \<and> r2 \<noteq> c)
        \<and> distinct (map fst results))"
proof -
  let ?c = "next_set h"
  let ?r = "Suc (next_set h)"
  let ?C = "set_add s (fold set_add xs [])"
  let ?h1 = "h\<lparr>styles := (styles h)(s := (styles h s)\<lparr>resolvedStyles_cache := Some ?c\<rparr>),
             sets := (sets h)(?c := ?C, ?r := fold set_add ?C []),
             next_set := Suc ?r\<rparr>"
  have first: "resolveStyles n h s = Some (?r, ?h1)"
    by (rule resolveStyles_fresh [OF assms])
  have cl: "insert s (set xs) = {a. (s, a) \<in> (baseRel h)\<^sup>*}"
    by (rule base_chain_closure [OF assms(2)])
  have contents: "set (sets ?h1 ?r) = {a. (s, a) \<in> (baseRel h)\<^sup>*}"
    using cl by (auto simp: set_fold_set_add set_add_def)
  have cache: "resolvedStyles_cache (styles ?h1 s) = Some ?c" by simp
  have cached: "set (sets ?h1 ?c) = {a. (s, a) \<in> (baseRel h)\<^sup>*}"
    using cl by (auto simp: set_fold_set_add set_add_def)
  have rel: "sets ?h1 ?r = fold set_add (sets ?h1 ?c) []" by simp
  have lat: "\<exists>results.
          later s ?h1 [?r] acts = Some results
        \<and> length results = calls acts
        \<and> (\<forall>(r2, ys) \<in> set results. ys = sets ?h1 ?r \<and> r2 \<noteq> ?r \<and> r2 \<noteq> ?c)
        \<and> distinct (map fst results)" for acts
  proof -
    have "\<exists>results. later s ?h1 [?r] acts = Some results
           \<and> length results = calls acts
           \<and> (\<forall>(r, ys) \<in> set results. ys = fold set_add (sets ?h1 ?c) [] \<and> r \<noteq> ?c \<and> r \<notin> set [?r])
           \<and> distinct (map fst results)"
      by (rule later_cached) simp_all
    then show ?thesis unfolding rel [symmetric] by fastforce
  qed
  show ?thesis
    apply (rule exI)+
    apply (intro conjI)
         apply (rule first)
        apply (rule contents)
       apply (rule cache)
      apply simp
     apply (rule cached)
    apply (intro allI)
    apply (rule lat)
    done
qed

theorem resolveStyles_closure_memoized_copy_witness:
  "resolvedStyles_cache (styles example_heap 1) = None
   \<and> base_chain example_heap (style_base (styles example_heap 1)) [2]
   \<and> (\<exists>h1. resolveStyles 0 example_heap 1 = Some (11, h1) \<and> sets h1 11 = [2, 1]
          \<and> later 1 h1 [11]
               [OverwriteReturned 0 [7], ChangeBase 1 None, CallResolveStyles 0,
                OverwriteReturned 1 [], CallResolveStyles 3]
             = Some [(12, [2, 1]), (13, [2, 1])])
   \<and> (\<exists>r c h1.
        resolveStyles 0 example_heap 1 = Some (r, h1)
      \<and> set (sets h1 r) = {a. (1, a) \<in> (baseRel example_heap)\<^sup>*}
      \<and> resolvedStyles_cache (styles h1 1) = Some c \<and> c \<noteq> r
      \<and> set (sets h1 c) = {a. (1, a) \<in> (baseRel example_heap)\<^sup>*}
      \<and> (\<forall>acts. \<exists>results.
            later 1 h1 [r] acts = Some results
          \<and> length results = calls acts
          \<and> (\<forall>(r2, ys) \<in> set results. ys = sets h1 r \<and> r2 \<noteq> r \<and> r2 \<noteq> c)
          \<and> distinct (map fst results)))"
proof -
  have a: "resolvedStyles_cache (styles example_heap 1) = None"
    by (simp add: example_heap_def)
  have "base_chain example_heap (style_base (styles example_heap 2)) []"
    by (simp add: example_heap_def chain_end)
  then have "base_chain example_heap (Some 2) [2]"
    by (rule chain_step)
  then have b: "base_chain example_heap (style_base (styles example_heap 1)) [2]"
    by (simp add: example_heap_def)
  have c: "\<exists>h1. resolveStyles 0 example_heap 1 = Some (11, h1) \<and> sets h1 11 = [2, 1]
          \<and> later 1 h1 [11]
               [OverwriteReturned 0 [7], ChangeBase 1 None, CallResolveStyles 0,
                OverwriteReturned 1 [], CallResolveStyles 3]
             = Some [(12, [2, 1]), (13, [2, 1])]"
    unfolding resolveStyles_fresh [OF a b]
    by (simp add: example_heap_def set_add_def resolveStyles_cached resolveStylesBody_def newSet_def)
  show ?thesis
    by (intro conjI a b c resolveStyles_closure_memoized_copy [OF a b])
qed

end
